theory Spec2Isabelle
  imports Complex_Main "HOL-Library.Sublist" "HOL-Library.Multiset"
begin

section \<open>Strings\<close>

text \<open>
  A JavaScript string is a sequence of 16-bit code units. The program only compares
  code units (it does no arithmetic on them), so a code unit is modelled by its number,
  a natural number below 65536. The card names hold CJK characters, all of them in the
  Basic Multilingual Plane, so each is one code unit, written here by its number.
  \<open>ascii\<close> turns an ASCII literal into code units.
\<close>

type_synonym char16 = nat
type_synonym jsstring = "char16 list"

definition ascii :: "string \<Rightarrow> jsstring" where
  "ascii s = map of_char s"

text \<open>\<^verbatim>\<open>s.includes(m)\<close>: \<open>m\<close> occurs in \<open>s\<close> as a contiguous run of code units.\<close>

fun js_includes :: "jsstring \<Rightarrow> jsstring \<Rightarrow> bool" where
  "js_includes [] m = (m = [])"
| "js_includes (c # cs) m = (prefix m (c # cs) \<or> js_includes cs m)"

text \<open>
  \<^verbatim>\<open>s.split(sep)\<close> for a separator of one code unit: the pieces between the
  separators, always at least one piece.
\<close>

fun js_split :: "char16 \<Rightarrow> jsstring \<Rightarrow> jsstring list" where
  "js_split sep [] = [[]]"
| "js_split sep (c # cs) =
     (if c = sep then [] # js_split sep cs
      else (case js_split sep cs of
              [] \<Rightarrow> [[c]]
            | p # ps \<Rightarrow> (c # p) # ps))"

text \<open>\<^verbatim>\<open>xs[i]\<close>: \<open>None\<close> stands for \<^verbatim>\<open>undefined\<close>, the value of an index out of range.\<close>

definition js_index :: "'a list \<Rightarrow> int \<Rightarrow> 'a option" where
  "js_index xs i = (if 0 \<le> i \<and> i < int (length xs) then Some (xs ! nat i) else None)"

text \<open>\<^verbatim>\<open>xs.indexOf(x)\<close>: the first position of \<open>x\<close>, or \<open>-1\<close>.\<close>

fun indexOfFrom :: "int \<Rightarrow> 'a list \<Rightarrow> 'a \<Rightarrow> int" where
  "indexOfFrom k [] x = - 1"
| "indexOfFrom k (y # ys) x = (if y = x then k else indexOfFrom (k + 1) ys x)"

definition indexOf :: "'a list \<Rightarrow> 'a \<Rightarrow> int" where
  "indexOf xs x = indexOfFrom 0 xs x"

text \<open>
  \<^verbatim>\<open>s.trim()\<close> removes the WhiteSpace and LineTerminator code points of ECMAScript
  from both ends. All of them are single code units.
\<close>

definition js_whitespace :: "char16 \<Rightarrow> bool" where
  "js_whitespace c =
     (c \<in> set [0x0009, 0x000A, 0x000B, 0x000C, 0x000D, 0x0020, 0x00A0, 0x1680,
                0x2000, 0x2001, 0x2002, 0x2003, 0x2004, 0x2005, 0x2006, 0x2007,
                0x2008, 0x2009, 0x200A, 0x2028, 0x2029, 0x202F, 0x205F, 0x3000,
                0xFEFF])"

definition trim :: "jsstring \<Rightarrow> jsstring" where
  "trim s = rev (dropWhile js_whitespace (rev (dropWhile js_whitespace s)))"

section \<open>Tarot data\<close>

definition MAJOR_ARCANA :: "jsstring list" where
  "MAJOR_ARCANA =
    [ascii ''The Fool ('' @ [0x611A, 0x8005] @ ascii '')'',
     ascii ''The Magician ('' @ [0x9B54, 0x672F, 0x5E08] @ ascii '')'',
     ascii ''The High Priestess ('' @ [0x5973, 0x796D, 0x53F8] @ ascii '')'',
     ascii ''The Empress ('' @ [0x7687, 0x540E] @ ascii '')'',
     ascii ''The Emperor ('' @ [0x7687, 0x5E1D] @ ascii '')'',
     ascii ''The Hierophant ('' @ [0x6559, 0x7687] @ ascii '')'',
     ascii ''The Lovers ('' @ [0x604B, 0x4EBA] @ ascii '')'',
     ascii ''The Chariot ('' @ [0x6218, 0x8F66] @ ascii '')'',
     ascii ''Strength ('' @ [0x529B, 0x91CF] @ ascii '')'',
     ascii ''The Hermit ('' @ [0x9690, 0x58EB] @ ascii '')'',
     ascii ''Wheel of Fortune ('' @ [0x547D, 0x8FD0, 0x4E4B, 0x8F6E] @ ascii '')'',
     ascii ''Justice ('' @ [0x6B63, 0x4E49] @ ascii '')'',
     ascii ''The Hanged Man ('' @ [0x5012, 0x540A, 0x4EBA] @ ascii '')'',
     ascii ''Death ('' @ [0x6B7B, 0x795E] @ ascii '')'',
     ascii ''Temperance ('' @ [0x8282, 0x5236] @ ascii '')'',
     ascii ''The Devil ('' @ [0x6076, 0x9B54] @ ascii '')'',
     ascii ''The Tower ('' @ [0x9AD8, 0x5854] @ ascii '')'',
     ascii ''The Star ('' @ [0x661F, 0x661F] @ ascii '')'',
     ascii ''The Moon ('' @ [0x6708, 0x4EAE] @ ascii '')'',
     ascii ''The Sun ('' @ [0x592A, 0x9633] @ ascii '')'',
     ascii ''Judgement ('' @ [0x5BA1, 0x5224] @ ascii '')'',
     ascii ''The World ('' @ [0x4E16, 0x754C] @ ascii '')'']"

definition SUITS :: "jsstring list" where
  "SUITS =
    [ascii ''Wands ('' @ [0x6743, 0x6756] @ ascii '')'',
     ascii ''Cups ('' @ [0x5723, 0x676F] @ ascii '')'',
     ascii ''Swords ('' @ [0x5B9D, 0x5251] @ ascii '')'',
     ascii ''Pentacles ('' @ [0x661F, 0x5E01] @ ascii '')'']"

definition RANKS :: "jsstring list" where
  "RANKS = map ascii
    [''Ace'', ''Two'', ''Three'', ''Four'', ''Five'', ''Six'', ''Seven'', ''Eight'',
     ''Nine'', ''Ten'', ''Page'', ''Knight'', ''Queen'', ''King'']"

definition FULL_DECK :: "jsstring list" where
  "FULL_DECK =
     MAJOR_ARCANA @
     concat (map (\<lambda>suit. map (\<lambda>rank. rank @ ascii '' of '' @ suit) RANKS) SUITS)"

section \<open>Helpers\<close>

text \<open>
  \<open>toRoman\<close>: the table in the order the source's object literal lists its keys (the
  order a \<^verbatim>\<open>for ... in\<close> visits them), and the two nested loops as one recursion:
  stay on an entry while \<open>num\<close> is at least its value, then go to the next one. Every
  value of the table is positive; the test \<open>0 < v\<close> only makes the recursion total on
  tables the source does not have.
\<close>

definition lookup :: "(string \<times> nat) list" where
  "lookup = [(''M'', 1000), (''CM'', 900), (''D'', 500), (''CD'', 400), (''C'', 100),
             (''XC'', 90), (''L'', 50), (''XL'', 40), (''X'', 10), (''IX'', 9),
             (''V'', 5), (''IV'', 4), (''I'', 1)]"

function romanLoop :: "(string \<times> nat) list \<Rightarrow> nat \<Rightarrow> jsstring \<Rightarrow> jsstring" where
  "romanLoop [] num roman = roman"
| "romanLoop ((i, v) # rest) num roman =
     (if 0 < v \<and> num \<ge> v then romanLoop ((i, v) # rest) (num - v) (roman @ ascii i)
      else romanLoop rest num roman)"
  by pat_completeness auto
termination
  by (relation "measures [\<lambda>(tab, num, roman). length tab, \<lambda>(tab, num, roman). num]") auto

definition toRoman :: "nat \<Rightarrow> jsstring" where
  "toRoman num = (if num = 0 then ascii ''0'' else romanLoop lookup num [])"

datatype icon = Star | Sun | Moon | Cloud | Flame | Droplets | Leaf | Shield | Crown

record colorTheme =
  sky :: jsstring
  ground :: jsstring
  accent :: jsstring

record CardMetadata =
  isMajor :: bool
  number :: jsstring
  suit :: jsstring
  colorTheme :: colorTheme
  Icon :: icon

definition theme :: "string \<Rightarrow> string \<Rightarrow> string \<Rightarrow> colorTheme" where
  "theme s g a = \<lparr>sky = ascii s, ground = ascii g, accent = ascii a\<rparr>"

definition firstWord :: "jsstring \<Rightarrow> jsstring" where
  "firstWord m = (case js_split 0x20 m of [] \<Rightarrow> [] | w # ws \<Rightarrow> w)"

definition getCardMetadata :: "jsstring \<Rightarrow> CardMetadata" where
  "getCardMetadata name =
    (let isMajor = list_ex (\<lambda>m. js_includes name (firstWord m)) MAJOR_ARCANA;
         has = (\<lambda>w. js_includes name (ascii w))
     in
     if isMajor then
       (let index = indexOf MAJOR_ARCANA name;
            number = (if index \<noteq> - 1 then toRoman (nat index) else []);
            (Icon, colorTheme) =
              (if has ''Sun'' then
                 (Sun, theme ''from-orange-300 to-yellow-200'' ''from-green-600 to-green-800''
                   ''text-orange-500'')
               else if has ''Moon'' then
                 (Moon, theme ''from-blue-900 to-slate-800'' ''from-slate-900 to-black''
                   ''text-blue-200'')
               else if has ''Star'' then
                 (Star, theme ''from-indigo-900 to-blue-600'' ''from-indigo-950 to-purple-900''
                   ''text-white'')
               else if has ''Devil'' \<or> has ''Tower'' then
                 (Flame, theme ''from-slate-900 to-red-900'' ''from-black to-red-950''
                   ''text-red-500'')
               else if has ''Fool'' \<or> has ''World'' then
                 (Crown, theme ''from-sky-300 to-blue-200'' ''from-emerald-600 to-green-700''
                   ''text-yellow-600'')
               else
                 (Shield, theme ''from-indigo-900 to-purple-800'' ''from-purple-900 to-black''
                   ''text-yellow-400''))
        in \<lparr>isMajor = isMajor, number = number, suit = ascii ''Major'',
             colorTheme = colorTheme, Icon = Icon\<rparr>)
     else
       (let (suit, colorTheme, Icon) =
              (if has ''Wands'' then
                 (ascii ''Wands'',
                  theme ''from-orange-100 to-yellow-100'' ''from-orange-800 to-red-900''
                    ''text-red-600'',
                  Droplets)
               else if has ''Cups'' then
                 (ascii ''Cups'',
                  theme ''from-blue-100 to-cyan-100'' ''from-blue-700 to-indigo-900''
                    ''text-blue-600'',
                  Droplets)
               else if has ''Swords'' then
                 (ascii ''Swords'',
                  theme ''from-slate-200 to-gray-300'' ''from-slate-600 to-gray-800''
                    ''text-slate-700'',
                  Cloud)
               else if has ''Pentacles'' then
                 (ascii ''Pentacles'',
                  theme ''from-yellow-50 to-amber-100'' ''from-green-700 to-emerald-900''
                    ''text-green-700'',
                  Leaf)
               else
                 (ascii ''Major'',
                  theme ''from-indigo-900 to-purple-800'' ''from-purple-900 to-black''
                    ''text-yellow-400'',
                  Star))
        in \<lparr>isMajor = isMajor, number = [], suit = suit,
             colorTheme = colorTheme, Icon = Icon\<rparr>))"

section \<open>Numbers\<close>

text \<open>
  A JavaScript number is an IEEE 754 binary64 value (a double). The finite doubles are
  real numbers, and an arithmetic operation gives the double nearest to the exact
  result, a tie going to the one with an even significand. \<open>to_double\<close> is that
  rounding: \<open>exponent x\<close> is the binary exponent of \<open>x\<close>, never below that of the
  smallest normal double, so \<open>ulp x\<close> is the spacing of the doubles around \<open>x\<close>, and
  \<open>x\<close> is rounded to a multiple of it. A number literal such as \<^verbatim>\<open>0.8\<close> denotes the double
  nearest to it. Overflow to \<^verbatim>\<open>Infinity\<close> is not modelled: the only rounded operation
  of the program multiplies a number below 1 by the length of an array.
\<close>

fun exponentFrom :: "nat \<Rightarrow> int \<Rightarrow> real \<Rightarrow> int" where
  "exponentFrom 0 e a = e"
| "exponentFrom (Suc n) e a = (if 2 powi e \<le> a then e else exponentFrom n (e - 1) a)"

definition exponent :: "real \<Rightarrow> int" where
  "exponent x = exponentFrom 2045 1023 \<bar>x\<bar>"

definition ulp :: "real \<Rightarrow> real" where
  "ulp x = 2 powi (exponent x - 52)"

definition round_half_even :: "real \<Rightarrow> int" where
  "round_half_even y =
     (let f = \<lfloor>y\<rfloor>; d = y - of_int f
      in if d < 1 / 2 then f
         else if 1 / 2 < d then f + 1
         else if even f then f else f + 1)"

definition to_double :: "real \<Rightarrow> real" where
  "to_double x = (if x = 0 then 0 else ulp x * of_int (round_half_even (x / ulp x)))"

definition is_double :: "real \<Rightarrow> bool" where
  "is_double x = (to_double x = x)"

section \<open>Types\<close>

text \<open>The four values of \<^verbatim>\<open>AppState\<close>, capitalised.\<close>

datatype AppState = Input | Shuffling | Selecting | Reading

text \<open>
  \<^verbatim>\<open>CardData\<close>. The field \<^verbatim>\<open>id\<close> is called \<open>cardId\<close> (\<open>id\<close> is the identity function
  of HOL). \<open>name\<close> is optional because \<^verbatim>\<open>deck[k]\<close> is \<^verbatim>\<open>undefined\<close> for \<open>k\<close> out of
  range; the optional fields are \<open>None\<close> when absent.
\<close>

record CardData =
  name :: "jsstring option"
  isReversed :: bool
  cardId :: nat
  originalIndex :: "nat option"
  imageUrl :: "jsstring option"

text \<open>One entry of \<^verbatim>\<open>cardLayout\<close>: the fields \<^verbatim>\<open>x\<close>, \<^verbatim>\<open>y\<close>, \<^verbatim>\<open>angle\<close>, \<^verbatim>\<open>z\<close>.\<close>

record LayoutSlot =
  slot_x :: real
  slot_y :: real
  slot_angle :: real
  slot_z :: nat

text \<open>
  The two \<^verbatim>\<open>setTimeout\<close> callbacks, with what their closures captured:
  the one of \<open>handleStart\<close> (2500 ms) captures nothing; the one of \<open>handleCardSelect\<close>
  (1000 ms) captures \<^verbatim>\<open>newSelection\<close> and \<^verbatim>\<open>question\<close>.
\<close>

datatype timer = Timer2500 | Timer1000 "CardData list" jsstring

text \<open>
  A call of \<^verbatim>\<open>ai.models.generateContent\<close> that has not settled yet, with the data its
  continuation captured: the card for an image, the cards and the question for the
  narrative. The text of the prompts is not modelled; what the service answers is an
  input of the model.
\<close>

datatype request = ImageRequest CardData | NarrativeRequest "CardData list" jsstring

text \<open>How an awaited promise settles.\<close>

datatype 'a outcome = Fulfilled 'a | Rejected

text \<open>
  A part of an image response; \<open>inlineData\<close> holds the \<^verbatim>\<open>data\<close> of
  \<^verbatim>\<open>part.inlineData\<close> when the part has one. An image response is the value of
  \<^verbatim>\<open>response.candidates?.[0]?.content?.parts\<close>, \<open>None\<close> when a link of that chain is
  missing; a narrative response is the value of \<^verbatim>\<open>response.text\<close>.
\<close>

record part =
  inlineData :: "jsstring option"

type_synonym image_response = "part list option"
type_synonym narrative_response = "jsstring option"

text \<open>
  The state of the component \<open>App\<close>: its eight \<^verbatim>\<open>useState\<close> cells, the value
  \<^verbatim>\<open>useMemo\<close> holds for \<open>cardLayout\<close> with the dependencies it was computed for, the
  number of calls of \<^verbatim>\<open>Math.random\<close> made so far, the timers that have not fired and
  the requests that have not settled.
\<close>

record App =
  gameState :: AppState
  question :: jsstring
  deck :: "jsstring list"
  selectedCards :: "CardData list"
  reading :: jsstring
  loadingReading :: bool
  layoutSeed :: nat
  screenWidth :: int
  cardLayout :: "LayoutSlot list"
  memoDeps :: "nat \<times> int \<times> bool"
  randomCalls :: nat
  timers :: "timer list"
  requests :: "request list"

text \<open>
  \<^verbatim>\<open>Math.random\<close> is a sequence \<open>rnd\<close> of numbers: its \<open>n\<close>-th call returns \<open>rnd n\<close>,
  a number in \<open>[0, 1)\<close>. The layout is computed in real numbers: its operations are
  continuous, and rounding changes its values by rounding errors only. The draw of a
  card takes a floor and a comparison, which are not continuous: it is computed in
  doubles, from a source whose numbers are doubles.
\<close>

type_synonym random = "nat \<Rightarrow> real"

definition random_source :: "random \<Rightarrow> bool" where
  "random_source rnd = (\<forall>n. 0 \<le> rnd n \<and> rnd n < 1)"

definition double_source :: "random \<Rightarrow> bool" where
  "double_source rnd = (\<forall>n. is_double (rnd n) \<and> 0 \<le> rnd n \<and> rnd n < 1)"

section \<open>The layout\<close>

definition isMobile :: "App \<Rightarrow> bool" where
  "isMobile s = (screenWidth s < 768)"

text \<open>
  The body of the \<^verbatim>\<open>map\<close> callback of \<open>cardLayout\<close> for slot \<open>i\<close>; \<open>r1\<close> and \<open>r2\<close> are
  the results of its two calls of \<^verbatim>\<open>Math.random\<close>, in the order they are made.
\<close>

definition layoutSlot :: "bool \<Rightarrow> real \<Rightarrow> real \<Rightarrow> nat \<Rightarrow> LayoutSlot" where
  "layoutSlot mobile r1 r2 i =
    (let totalCards = 22;
         angleStep = 360 / totalCards;
         baseAngleDeg = - 90 + (real i * angleStep);
         angleRad = baseAngleDeg * (pi / 180);
         radius = (if mobile then 115 else 240);
         randomR = (r1 - 0.5) * (if mobile then 4 else 8);
         randomAngle = (r2 - 0.5) * 2;
         finalRadius = radius + randomR;
         finalAngleRad = angleRad + (randomAngle * pi / 180);
         x = cos finalAngleRad * finalRadius;
         y = sin finalAngleRad * finalRadius;
         rotation = baseAngleDeg + 90 + randomAngle
     in \<lparr>slot_x = x, slot_y = y, slot_angle = rotation, slot_z = i\<rparr>)"

text \<open>
  One evaluation of the \<^verbatim>\<open>useMemo\<close> callback when \<open>k\<close> calls of \<^verbatim>\<open>Math.random\<close> have
  been made before: the slots are computed in the order 0 to 21, two calls each.
\<close>

definition generateLayout :: "random \<Rightarrow> nat \<Rightarrow> bool \<Rightarrow> LayoutSlot list" where
  "generateLayout rnd k mobile =
     map (\<lambda>i. layoutSlot mobile (rnd (k + 2 * i)) (rnd (k + 2 * i + 1)) i) [0..<22]"

definition layoutDeps :: "App \<Rightarrow> nat \<times> int \<times> bool" where
  "layoutDeps s = (layoutSeed s, screenWidth s, isMobile s)"

text \<open>
  A render after a state change: \<^verbatim>\<open>useMemo\<close> calls its callback again when one of
  \<^verbatim>\<open>[layoutSeed, screenWidth, isMobile]\<close> differs from the value of the last
  computation, and keeps the old layout otherwise.
\<close>

definition render :: "random \<Rightarrow> App \<Rightarrow> App" where
  "render rnd s =
     (if layoutDeps s = memoDeps s then s
      else s\<lparr>cardLayout := generateLayout rnd (randomCalls s) (isMobile s),
             memoDeps := layoutDeps s,
             randomCalls := randomCalls s + 44\<rparr>)"

text \<open>
  The first render, from the initial values of the \<^verbatim>\<open>useState\<close> cells, and the effect
  that runs after it: \<^verbatim>\<open>setDeck(FULL_DECK)\<close> and \<^verbatim>\<open>setScreenWidth(window.innerWidth)\<close>.
\<close>

definition firstRender :: "random \<Rightarrow> App" where
  "firstRender rnd =
     \<lparr>gameState = Input, question = [], deck = [], selectedCards = [], reading = [],
      loadingReading = False, layoutSeed = 0, screenWidth = 1000,
      cardLayout = generateLayout rnd 0 False, memoDeps = (0, 1000, False),
      randomCalls = 44, timers = [], requests = []\<rparr>"

definition mount :: "random \<Rightarrow> int \<Rightarrow> App" where
  "mount rnd innerWidth = render rnd ((firstRender rnd)\<lparr>deck := FULL_DECK, screenWidth := innerWidth\<rparr>)"

section \<open>The handlers\<close>

definition handleStart :: "App \<Rightarrow> App" where
  "handleStart s =
     (if trim (question s) = [] then s
      else s\<lparr>gameState := Shuffling,
             layoutSeed := layoutSeed s + 1,
             timers := timers s @ [Timer2500]\<rparr>)"

text \<open>
  \<open>handleCardSelect\<close>: the product \<^verbatim>\<open>Math.random() * deck.length\<close> is a double
  multiplication, rounded; \<^verbatim>\<open>Math.floor\<close> and \<^verbatim>\<open>>\<close> are exact; \<^verbatim>\<open>0.8\<close> is the double
  nearest to 0.8.
\<close>

definition handleCardSelect :: "random \<Rightarrow> nat \<Rightarrow> App \<Rightarrow> App" where
  "handleCardSelect rnd index s =
     (if length (selectedCards s) \<ge> 3 then s
      else
        (let randomCardName =
               js_index (deck s) \<lfloor>to_double (rnd (randomCalls s) * real (length (deck s)))\<rfloor>;
             isReversed = (rnd (randomCalls s + 1) > to_double 0.8);
             newCard = \<lparr>name = randomCardName, isReversed = isReversed, cardId = index,
                        originalIndex = None, imageUrl = None\<rparr>;
             newSelection = selectedCards s @ [newCard];
             s' = s\<lparr>selectedCards := newSelection, randomCalls := randomCalls s + 2\<rparr>
         in if length newSelection = 3
            then s'\<lparr>timers := timers s' @ [Timer1000 newSelection (question s)]\<rparr>
            else s'))"

text \<open>
  \<open>generateCardImage\<close>: everything thrown in its \<^verbatim>\<open>try\<close> block is caught and gives
  \<^verbatim>\<open>null\<close>; otherwise the result is the data URL of the first part with inline data,
  or \<^verbatim>\<open>null\<close> when there is none.
\<close>

fun firstInlineData :: "part list \<Rightarrow> jsstring option" where
  "firstInlineData [] = None"
| "firstInlineData (p # ps) =
     (case inlineData p of
        Some d \<Rightarrow> Some (ascii ''data:image/png;base64,'' @ d)
      | None \<Rightarrow> firstInlineData ps)"

definition generateCardImage :: "image_response outcome \<Rightarrow> jsstring option" where
  "generateCardImage res =
     (case res of
        Fulfilled response \<Rightarrow> firstInlineData (case response of None \<Rightarrow> [] | Some ps \<Rightarrow> ps)
      | Rejected \<Rightarrow> None)"

text \<open>
  The continuation of the \<^verbatim>\<open>forEach\<close> callback of \<open>generateReading\<close> after its
  \<^verbatim>\<open>await\<close>: nothing for \<^verbatim>\<open>null\<close> or an empty string, else the functional update of
  \<open>selectedCards\<close>. The captured \<^verbatim>\<open>card\<close> is written \<open>crd\<close> (\<open>card\<close> is the
  cardinality of HOL).
\<close>

definition mergeImage :: "CardData \<Rightarrow> jsstring option \<Rightarrow> App \<Rightarrow> App" where
  "mergeImage crd url s =
     (case url of
        None \<Rightarrow> s
      | Some u \<Rightarrow>
          if u = [] then s
          else s\<lparr>selectedCards :=
                    map (\<lambda>c. if cardId c = cardId crd then c\<lparr>imageUrl := Some u\<rparr> else c)
                      (selectedCards s)\<rparr>)"

definition silentMessage :: jsstring where
  "silentMessage = ascii ''The spirits are silent. Please try again.''"

definition errorMessage :: jsstring where
  "errorMessage = ascii
     ''An error occurred while communing with the spirits. Please check your connection and try again.''"

text \<open>
  The continuation of \<open>generateReading\<close> after its \<^verbatim>\<open>await\<close>: the \<^verbatim>\<open>try\<close> branch with
  \<^verbatim>\<open>response.text || ...\<close>, the \<^verbatim>\<open>catch\<close> branch, and \<^verbatim>\<open>finally\<close>.
\<close>

definition narrativeSettled :: "narrative_response outcome \<Rightarrow> App \<Rightarrow> App" where
  "narrativeSettled res s =
     (case res of
        Fulfilled text \<Rightarrow>
          s\<lparr>reading := (case text of
                          None \<Rightarrow> silentMessage
                        | Some t \<Rightarrow> if t = [] then silentMessage else t),
            loadingReading := False\<rparr>
      | Rejected \<Rightarrow> s\<lparr>reading := errorMessage, loadingReading := False\<rparr>)"

text \<open>
  The same two continuations with their exceptions written out. A block of statements
  completes normally, with a value, or by a throw; \<^verbatim>\<open>await\<close> of a rejected promise
  throws; \<^verbatim>\<open>try B catch C\<close> completes as \<open>B\<close> does unless \<open>B\<close> throws, and then as \<open>C\<close>
  does. \<open>generateCardImageBody\<close> is the body of \<open>generateCardImage\<close>, with its
  \<^verbatim>\<open>try\<close> block and its \<^verbatim>\<open>catch\<close> block that returns \<^verbatim>\<open>null\<close>; \<open>imageCallback\<close> is the
  \<^verbatim>\<open>forEach\<close> callback, which has no \<^verbatim>\<open>try\<close> of its own, so that a throw of
  \<open>generateCardImage\<close> would leave it; \<open>narrativeBody\<close> is the \<^verbatim>\<open>try\<close>, \<^verbatim>\<open>catch\<close> and
  \<^verbatim>\<open>finally\<close> of \<open>generateReading\<close>, giving how it completes and the state it leaves.
\<close>

datatype 'a completion = Normal 'a | Throw

definition await :: "'a outcome \<Rightarrow> 'a completion" where
  "await p = (case p of Fulfilled v \<Rightarrow> Normal v | Rejected \<Rightarrow> Throw)"

definition tryCatch :: "'a completion \<Rightarrow> 'a completion \<Rightarrow> 'a completion" where
  "tryCatch block handling = (case block of Normal v \<Rightarrow> Normal v | Throw \<Rightarrow> handling)"

definition generateCardImageBody :: "image_response outcome \<Rightarrow> jsstring option completion" where
  "generateCardImageBody res =
     tryCatch
       (case await res of
          Normal response \<Rightarrow>
            Normal (firstInlineData (case response of None \<Rightarrow> [] | Some ps \<Rightarrow> ps))
        | Throw \<Rightarrow> Throw)
       (Normal None)"

definition imageCallback :: "CardData \<Rightarrow> image_response outcome \<Rightarrow> App \<Rightarrow> App completion" where
  "imageCallback crd res s =
     (case generateCardImageBody res of
        Normal url \<Rightarrow> Normal (mergeImage crd url s)
      | Throw \<Rightarrow> Throw)"

definition narrativeBody ::
  "narrative_response outcome \<Rightarrow> App \<Rightarrow> unit completion \<times> App" where
  "narrativeBody res s =
     (let (tried, s1) =
            (case await res of
               Normal text \<Rightarrow>
                 (Normal (),
                  s\<lparr>reading := (case text of
                                  None \<Rightarrow> silentMessage
                                | Some t \<Rightarrow> if t = [] then silentMessage else t)\<rparr>)
             | Throw \<Rightarrow> (Throw, s));
          (caught, s2) =
            (case tried of
               Normal u \<Rightarrow> (Normal u, s1)
             | Throw \<Rightarrow> (Normal (), s1\<lparr>reading := errorMessage\<rparr>))
      in (caught, s2\<lparr>loadingReading := False\<rparr>))"

text \<open>
  \<open>generateReading\<close> up to its first \<^verbatim>\<open>await\<close>: the two setters, one image request per
  card in the order of \<^verbatim>\<open>forEach\<close>, then the narrative request.
\<close>

definition generateReading :: "CardData list \<Rightarrow> jsstring \<Rightarrow> App \<Rightarrow> App" where
  "generateReading cards userQuestion s =
     s\<lparr>loadingReading := True,
       reading := [],
       requests := requests s @ map ImageRequest cards @ [NarrativeRequest cards userQuestion]\<rparr>"

fun fire :: "timer \<Rightarrow> App \<Rightarrow> App" where
  "fire Timer2500 s = s\<lparr>gameState := Selecting\<rparr>"
| "fire (Timer1000 newSelection q) s = generateReading newSelection q (s\<lparr>gameState := Reading\<rparr>)"

definition resetGame :: "App \<Rightarrow> App" where
  "resetGame s = s\<lparr>gameState := Input, question := [], selectedCards := [], reading := []\<rparr>"

section \<open>Events\<close>

text \<open>
  What can happen to the mounted component: the window is resized, the user edits the
  question, starts (button or Enter key), clicks slot \<open>i\<close> of the circle, clicks
  "Consult Again", a timer fires, a request settles.
\<close>

datatype event =
    Resize int
  | ChangeQuestion jsstring
  | Start
  | SelectCard nat
  | Reset
  | Timeout timer
  | ImageResult CardData "image_response outcome"
  | NarrativeResult "CardData list" jsstring "narrative_response outcome"

fun handler :: "random \<Rightarrow> event \<Rightarrow> App \<Rightarrow> App" where
  "handler rnd (Resize w) s = s\<lparr>screenWidth := w\<rparr>"
| "handler rnd (ChangeQuestion q) s = s\<lparr>question := q\<rparr>"
| "handler rnd Start s = handleStart s"
| "handler rnd (SelectCard i) s = handleCardSelect rnd i s"
| "handler rnd Reset s = resetGame s"
| "handler rnd (Timeout t) s = fire t (s\<lparr>timers := remove1 t (timers s)\<rparr>)"
| "handler rnd (ImageResult crd res) s =
     mergeImage crd (generateCardImage res)
       (s\<lparr>requests := remove1 (ImageRequest crd) (requests s)\<rparr>)"
| "handler rnd (NarrativeResult cards q res) s =
     narrativeSettled res (s\<lparr>requests := remove1 (NarrativeRequest cards q) (requests s)\<rparr>)"

text \<open>An event: its handler runs, then the component renders again.\<close>

definition step :: "random \<Rightarrow> event \<Rightarrow> App \<Rightarrow> App" where
  "step rnd e s = render rnd (handler rnd e s)"

text \<open>
  What the rendered page and the runtime allow in state \<open>s\<close>: the input field and the
  start action exist only in the \<open>Input\<close> view; a slot of the circle can be clicked only
  in the \<open>Selecting\<close> view and only while no selected card has its index; "Consult
  Again" exists only in the \<open>Reading\<close> view once \<open>loadingReading\<close> is false; a timer
  fires only if it is pending, a request settles only if it is in flight. Time is not
  modelled: a pending timer may fire at any later moment.
\<close>

fun enabled :: "App \<Rightarrow> event \<Rightarrow> bool" where
  "enabled s (Resize w) = True"
| "enabled s (ChangeQuestion q) = (gameState s = Input)"
| "enabled s Start = (gameState s = Input)"
| "enabled s (SelectCard i) =
     (gameState s = Selecting \<and> i < length (cardLayout s) \<and>
      \<not> list_ex (\<lambda>c. cardId c = i) (selectedCards s))"
| "enabled s Reset = (gameState s = Reading \<and> \<not> loadingReading s)"
| "enabled s (Timeout t) = (t \<in> set (timers s))"
| "enabled s (ImageResult crd res) = (ImageRequest crd \<in> set (requests s))"
| "enabled s (NarrativeResult cards q res) = (NarrativeRequest cards q \<in> set (requests s))"

inductive reachable :: "random \<Rightarrow> App \<Rightarrow> bool" for rnd :: random where
  mounted: "reachable rnd (mount rnd innerWidth)"
| stepped: "reachable rnd s \<Longrightarrow> enabled s e \<Longrightarrow> reachable rnd (step rnd e s)"

text \<open>
  Running a list of events from a state, \<open>None\<close> as soon as one of them is not enabled.
\<close>

fun run :: "random \<Rightarrow> event list \<Rightarrow> App \<Rightarrow> App option" where
  "run rnd [] s = Some s"
| "run rnd (e # es) s = (if enabled s e then run rnd es (step rnd e s) else None)"

text \<open>The state is consistent with its last render.\<close>

definition rendered :: "App \<Rightarrow> bool" where
  "rendered s = (memoDeps s = layoutDeps s)"

fun isNarrative :: "request \<Rightarrow> bool" where
  "isNarrative (ImageRequest crd) = False"
| "isNarrative (NarrativeRequest cards q) = True"

text \<open>The slots of the selection a timer captured, if it captured one.\<close>

fun timerSlots :: "timer \<Rightarrow> nat list option" where
  "timerSlots Timer2500 = None"
| "timerSlots (Timer1000 newSelection q) = Some (map cardId newSelection)"

fun requestOk :: "request \<Rightarrow> bool" where
  "requestOk (ImageRequest crd) = True"
| "requestOk (NarrativeRequest cards q) = (length cards = 3 \<and> distinct (map cardId cards))"

text \<open>
  The invariant of the reachable states: what is pending in each view, how many cards
  are selected, and that no two selected cards share a slot.
\<close>

definition consistent :: "App \<Rightarrow> bool" where
  "consistent s =
     (rendered s \<and> deck s = FULL_DECK \<and> length (cardLayout s) = 22 \<and>
      distinct (map cardId (selectedCards s)) \<and>
      length (filter isNarrative (requests s)) = (if loadingReading s then 1 else 0) \<and>
      list_all requestOk (requests s) \<and>
      (loadingReading s = (gameState s = Reading \<and> filter isNarrative (requests s) \<noteq> [])) \<and>
      map timerSlots (timers s) =
        (case gameState s of
           Input \<Rightarrow> []
         | Shuffling \<Rightarrow> [None]
         | Selecting \<Rightarrow>
             if length (selectedCards s) = 3 then [Some (map cardId (selectedCards s))] else []
         | Reading \<Rightarrow> []) \<and>
      (case gameState s of
         Input \<Rightarrow> selectedCards s = []
       | Shuffling \<Rightarrow> selectedCards s = []
       | Selecting \<Rightarrow> length (selectedCards s) \<le> 3
       | Reading \<Rightarrow> length (selectedCards s) = 3))"

text \<open>
  The results of one run of \<open>generateReading\<close>: the narrative result, and one image
  result per card.
\<close>

definition completions ::
  "CardData list \<Rightarrow> jsstring \<Rightarrow> image_response outcome list \<Rightarrow> narrative_response outcome
    \<Rightarrow> event list" where
  "completions cards q irs nr =
     NarrativeResult cards q nr # map (\<lambda>(crd, r). ImageResult crd r) (zip cards irs)"

text \<open>A card without its artwork: what of a drawn card an image result never touches.\<close>

definition withoutImage :: "CardData \<Rightarrow> CardData" where
  "withoutImage c = c\<lparr>imageUrl := None\<rparr>"

section \<open>Concrete sessions\<close>

text \<open>
  Two random sources (a constant one, and one that cycles through the sevenths), and
  a session played on the second one: the question is typed,
  the session started, the shuffle timer fires, the slots 0, 1 and 2 are clicked, the
  second timer fires, the narrative arrives; then "Consult Again", a second question, a
  second shuffle, and slot 0 is clicked again.
\<close>

definition quarter :: random where
  "quarter n = 1 / 4"

definition cycle7 :: random where
  "cycle7 n = real (n mod 7) / 7"

text \<open>
  A source of doubles whose calls 88 and 89 return a number just below 40/78, whose
  product with 78 rounds to 40, and the double nearest to 0.8.
\<close>

definition edge :: random where
  "edge n = (if n = 88 then 288692283805801 / 2 ^ 49
             else if n = 89 then 3602879701896397 / 2 ^ 52
             else 0)"

definition q1 :: jsstring where
  "q1 = ascii ''love?''"

definition q2 :: jsstring where
  "q2 = ascii ''work?''"

definition drawn :: "nat \<Rightarrow> nat \<Rightarrow> CardData" where
  "drawn k i = \<lparr>name = Some (FULL_DECK ! k), isReversed = False, cardId = i,
                originalIndex = None, imageUrl = None\<rparr>"

definition cardsA :: "CardData list" where
  "cardsA = [drawn 44 0, drawn 66 1, drawn 11 2]"

definition toSelecting :: "event list" where
  "toSelecting = [ChangeQuestion q1, Start, Timeout Timer2500]"

definition threeSelected :: "event list" where
  "threeSelected = toSelecting @ [SelectCard 0, SelectCard 1, SelectCard 2]"

definition toReading :: "event list" where
  "toReading = threeSelected @ [Timeout (Timer1000 cardsA q1)]"

definition png :: "image_response outcome" where
  "png = Fulfilled (Some [\<lparr>inlineData = Some (ascii ''AAAA'')\<rparr>])"

definition told :: "narrative_response outcome" where
  "told = Fulfilled (Some (ascii ''The cards speak.''))"

definition answered :: "event list" where
  "answered = toReading @ [NarrativeResult cardsA q1 told]"

definition secondSession :: "event list" where
  "secondSession =
     answered @ [Reset, ChangeQuestion q2, Start, Timeout Timer2500, SelectCard 0]"

section \<open>Rounding to doubles\<close>

lemma exponentFrom_spec:
  "a < 2 powi (e + 1) \<Longrightarrow>
   e - int n \<le> exponentFrom n e a \<and> exponentFrom n e a \<le> e \<and>
   a < 2 powi (exponentFrom n e a + 1) \<and>
   (e - int n < exponentFrom n e a \<longrightarrow> 2 powi (exponentFrom n e a) \<le> a)"
proof (induction n arbitrary: e)
  case 0
  then show ?case by simp
next
  case (Suc n)
  show ?case
  proof (cases "2 powi e \<le> a")
    case True
    with Suc.prems show ?thesis by simp
  next
    case False
    then have "a < 2 powi ((e - 1) + 1)" by simp
    from Suc.IH [OF this] False show ?thesis by auto
  qed
qed

lemma exponent_spec:
  assumes "\<bar>x\<bar> < 2 powi 1024"
  shows "- 1022 \<le> exponent x" "exponent x \<le> 1023" "\<bar>x\<bar> < 2 powi (exponent x + 1)"
    "- 1022 < exponent x \<Longrightarrow> 2 powi (exponent x) \<le> \<bar>x\<bar>"
  using exponentFrom_spec [of "\<bar>x\<bar>" 1023 2045] assms
  by (simp_all add: exponent_def)

lemma exponent_eq:
  assumes "2 powi e \<le> \<bar>x\<bar>" "\<bar>x\<bar> < 2 powi (e + 1)" "- 1022 \<le> e" "e \<le> 1023"
  shows "exponent x = e"
proof -
  have "(2::real) powi (e + 1) \<le> 2 powi 1024"
    using assms(4) by (intro power_int_increasing) auto
  with assms(2) have b: "\<bar>x\<bar> < 2 powi 1024" by simp
  note s = exponent_spec [OF b]
  have "\<not> exponent x < e"
  proof
    assume "exponent x < e"
    then have "(2::real) powi (exponent x + 1) \<le> 2 powi e"
      by (intro power_int_increasing) auto
    with s(3) assms(1) show False by simp
  qed
  moreover have "\<not> e < exponent x"
  proof
    assume l: "e < exponent x"
    then have "(2::real) powi (e + 1) \<le> 2 powi (exponent x)"
      by (intro power_int_increasing) auto
    moreover from l assms(3) have "- 1022 < exponent x" by simp
    ultimately show False using s(4) assms(2) by simp
  qed
  ultimately show ?thesis by simp
qed

lemma exponent_le:
  assumes "\<bar>x\<bar> < 2 powi (e + 1)" "- 1022 \<le> e" "e \<le> 1023"
  shows "exponent x \<le> e"
proof -
  have "(2::real) powi (e + 1) \<le> 2 powi 1024"
    using assms(3) by (intro power_int_increasing) auto
  with assms(1) have b: "\<bar>x\<bar> < 2 powi 1024" by simp
  note s = exponent_spec [OF b]
  show ?thesis
  proof (rule ccontr)
    assume "\<not> exponent x \<le> e"
    then have l: "e < exponent x" by simp
    then have "(2::real) powi (e + 1) \<le> 2 powi (exponent x)"
      by (intro power_int_increasing) auto
    moreover from l assms(2) have "- 1022 < exponent x" by simp
    ultimately show False using s(4) assms(1) by simp
  qed
qed

lemma round_half_even_cases:
  "round_half_even y = \<lfloor>y\<rfloor> \<and> y - of_int \<lfloor>y\<rfloor> \<le> 1 / 2 \<or>
   round_half_even y = \<lfloor>y\<rfloor> + 1 \<and> 1 / 2 \<le> y - of_int \<lfloor>y\<rfloor>"
  unfolding round_half_even_def Let_def by auto

lemma round_half_even_error: "\<bar>of_int (round_half_even y) - y\<bar> \<le> 1 / 2"
proof -
  have "of_int \<lfloor>y\<rfloor> \<le> y" "y < of_int \<lfloor>y\<rfloor> + 1" by linarith+
  with round_half_even_cases [of y] show ?thesis by auto
qed

lemma round_half_even_ge: "of_int N \<le> y \<Longrightarrow> N \<le> round_half_even y"
proof -
  assume "of_int N \<le> y"
  then have "N \<le> \<lfloor>y\<rfloor>" by (simp add: le_floor_iff)
  with round_half_even_cases [of y] show ?thesis by auto
qed

lemma round_half_even_le: "y \<le> of_int N \<Longrightarrow> round_half_even y \<le> N"
proof -
  assume a: "y \<le> of_int N"
  then have f: "\<lfloor>y\<rfloor> \<le> N" by (simp add: floor_le_iff)
  from round_half_even_cases [of y] show ?thesis
  proof
    assume "round_half_even y = \<lfloor>y\<rfloor> \<and> y - of_int \<lfloor>y\<rfloor> \<le> 1 / 2"
    with f show ?thesis by simp
  next
    assume b: "round_half_even y = \<lfloor>y\<rfloor> + 1 \<and> 1 / 2 \<le> y - of_int \<lfloor>y\<rfloor>"
    then have "of_int \<lfloor>y\<rfloor> < y" by simp
    with a have "(of_int \<lfloor>y\<rfloor> :: real) < of_int N" by simp
    then have "\<lfloor>y\<rfloor> < N" by simp
    with b show ?thesis by simp
  qed
qed

lemma round_half_even_int [simp]: "round_half_even (of_int N) = N"
  by (simp add: round_half_even_def)

lemma ulp_pos [simp]: "0 < ulp x"
  by (simp add: ulp_def)

lemma to_double_error: "\<bar>to_double x - x\<bar> \<le> ulp x / 2"
proof (cases "x = 0")
  case True
  then show ?thesis by (simp add: to_double_def less_imp_le)
next
  case False
  have "ulp x \<noteq> 0" by (simp add: ulp_def)
  then have "to_double x - x = ulp x * (of_int (round_half_even (x / ulp x)) - x / ulp x)"
    using False by (simp add: to_double_def algebra_simps)
  then have "\<bar>to_double x - x\<bar> = \<bar>ulp x\<bar> * \<bar>of_int (round_half_even (x / ulp x)) - x / ulp x\<bar>"
    by (simp only: abs_mult)
  also have "\<bar>ulp x\<bar> = ulp x" by (simp add: ulp_def)
  finally have "\<bar>to_double x - x\<bar> = ulp x * \<bar>of_int (round_half_even (x / ulp x)) - x / ulp x\<bar>" .
  also have "\<dots> \<le> ulp x * (1 / 2)"
    by (intro mult_left_mono round_half_even_error) (simp add: less_imp_le)
  finally show ?thesis by simp
qed

text \<open>Below 128 the spacing of the doubles is at most 2 to the -46.\<close>

lemma ulp_below_128:
  assumes "\<bar>x\<bar> < 128"
  shows "\<exists>m. 46 \<le> m \<and> ulp x = 1 / 2 ^ m"
proof -
  have "\<bar>x\<bar> < 2 powi (6 + 1)" using assms by simp
  then have e: "exponent x \<le> 6" by (rule exponent_le) simp_all
  define m where "m = nat (52 - exponent x)"
  have "46 \<le> m" using e by (simp add: m_def)
  moreover have "exponent x - 52 = - int m" using e by (simp add: m_def)
  then have "ulp x = 2 powi (- int m)" by (simp add: ulp_def)
  then have "ulp x = 1 / 2 ^ m"
    by (simp add: power_int_minus inverse_eq_divide)
  ultimately show ?thesis by blast
qed

lemma to_double_error_128:
  assumes "\<bar>x\<bar> < 128"
  shows "x - 1 / 2 ^ 47 \<le> to_double x" "to_double x \<le> x + 1 / 2 ^ 47"
proof -
  from ulp_below_128 [OF assms] obtain m where m: "46 \<le> m" "ulp x = 1 / 2 ^ m" by blast
  have "(2::real) ^ 46 \<le> 2 ^ m" using m(1) by (intro power_increasing) auto
  then have "ulp x \<le> 1 / 2 ^ 46" unfolding m(2) by (simp add: field_simps)
  then have "ulp x / 2 \<le> 1 / 2 ^ 47" by simp
  with to_double_error [of x] have "\<bar>to_double x - x\<bar> \<le> 1 / 2 ^ 47" by (rule order_trans)
  then show "x - 1 / 2 ^ 47 \<le> to_double x" "to_double x \<le> x + 1 / 2 ^ 47"
    by linarith+
qed

lemma to_double_ge_nat:
  assumes "real j \<le> x" "x < 128"
  shows "real j \<le> to_double x"
proof (cases "x = 0")
  case True
  with assms show ?thesis by (simp add: to_double_def)
next
  case False
  from assms have "\<bar>x\<bar> < 128" by simp
  from ulp_below_128 [OF this] obtain m where m: "ulp x = 1 / 2 ^ m" by blast
  have "real_of_int (int (j * 2 ^ m)) \<le> x / ulp x"
    using assms(1) unfolding m by (simp add: field_simps)
  then have "int (j * 2 ^ m) \<le> round_half_even (x / ulp x)"
    by (rule round_half_even_ge)
  then have "real_of_int (int (j * 2 ^ m)) \<le> of_int (round_half_even (x / ulp x))"
    by (simp only: of_int_le_iff)
  then have "ulp x * real_of_int (int (j * 2 ^ m)) \<le> ulp x * of_int (round_half_even (x / ulp x))"
    by (intro mult_left_mono) (simp_all add: less_imp_le)
  then show ?thesis using False unfolding to_double_def m by simp
qed

lemma to_double_le_nat:
  assumes "0 \<le> x" "x \<le> real j" "x < 128"
  shows "to_double x \<le> real j"
proof (cases "x = 0")
  case True
  with assms show ?thesis by (simp add: to_double_def)
next
  case False
  from assms have "\<bar>x\<bar> < 128" by simp
  from ulp_below_128 [OF this] obtain m where m: "ulp x = 1 / 2 ^ m" by blast
  have "x / ulp x \<le> real_of_int (int (j * 2 ^ m))"
    using assms(2) unfolding m by (simp add: field_simps)
  then have "round_half_even (x / ulp x) \<le> int (j * 2 ^ m)"
    by (rule round_half_even_le)
  then have "of_int (round_half_even (x / ulp x)) \<le> real_of_int (int (j * 2 ^ m))"
    by (simp only: of_int_le_iff)
  then have "ulp x * of_int (round_half_even (x / ulp x)) \<le> ulp x * real_of_int (int (j * 2 ^ m))"
    by (intro mult_left_mono) (simp_all add: less_imp_le)
  then show ?thesis using False unfolding to_double_def m by simp
qed

text \<open>The floor of a rounded product, up to one rounding error.\<close>

lemma floor_to_double:
  assumes "real j \<le> x" "x < real j + 1 - 1 / 2 ^ 47" "x < 128"
  shows "\<lfloor>to_double x\<rfloor> = int j"
proof -
  have a: "real j \<le> to_double x" using assms(1,3) by (rule to_double_ge_nat)
  from assms have "\<bar>x\<bar> < 128" by simp
  from to_double_error_128(2) [OF this] assms(2) have "to_double x < real j + 1" by linarith
  with a show ?thesis by (simp add: floor_eq_iff)
qed

lemma floor_to_double_conv:
  assumes "\<lfloor>to_double x\<rfloor> = int j" "0 \<le> x" "x < 128"
  shows "real j - 1 / 2 ^ 47 \<le> x" "x < real j + 1"
proof -
  from assms(1) have f: "real j \<le> to_double x" "to_double x < real j + 1"
    by (simp_all add: floor_eq_iff)
  from assms have "\<bar>x\<bar> < 128" by simp
  from to_double_error_128(2) [OF this] f(1) show "real j - 1 / 2 ^ 47 \<le> x" by linarith
  show "x < real j + 1"
  proof (rule ccontr)
    assume "\<not> x < real j + 1"
    then have "real (Suc j) \<le> x" by simp
    then have "real (Suc j) \<le> to_double x" using assms(3) by (rule to_double_ge_nat)
    with f(2) show False by simp
  qed
qed

lemma to_double_eval:
  assumes "2 powi e \<le> \<bar>x\<bar>" "\<bar>x\<bar> < 2 powi (e + 1)" "- 1022 \<le> e" "e \<le> 1023"
  shows "to_double x = 2 powi (e - 52) * of_int (round_half_even (x / 2 powi (e - 52)))"
proof -
  have "exponent x = e" using assms by (rule exponent_eq)
  moreover have "(0::real) < 2 powi e" by (simp add: zero_less_power_int)
  with assms(1) have "0 < \<bar>x\<bar>" by linarith
  then have "x \<noteq> 0" by simp
  ultimately show ?thesis by (simp add: to_double_def ulp_def)
qed

lemma to_double_0_8: "to_double 0.8 = 3602879701896397 / 4503599627370496"
proof -
  have "to_double 0.8 = 2 powi (- 1 - 52) * of_int (round_half_even (0.8 / 2 powi (- 1 - 52)))"
    by (rule to_double_eval) (simp_all add: power_int_minus)
  also have "\<dots> = 3602879701896397 / 4503599627370496"
    by (simp add: power_int_minus round_half_even_def Let_def)
  finally show ?thesis .
qed

lemma to_double_4_5: "to_double (4 / 5) = 3602879701896397 / 4503599627370496"
  using to_double_0_8 by simp

lemma product_rounds_up:
  "\<lfloor>to_double (288692283805801 / 2 ^ 49 * 78)\<rfloor> = 40" "\<lfloor>(288692283805801 / 2 ^ 49 * 78 :: real)\<rfloor> = 39"
proof -
  have "to_double (288692283805801 / 2 ^ 49 * 78) =
      2 powi (5 - 52) * of_int (round_half_even (288692283805801 / 2 ^ 49 * 78 / 2 powi (5 - 52)))"
    by (rule to_double_eval) (simp_all add: power_int_minus)
  also have "\<dots> = 40"
    by (simp add: power_int_minus round_half_even_def Let_def)
  finally show "\<lfloor>to_double (288692283805801 / 2 ^ 49 * 78)\<rfloor> = 40" by simp
  show "\<lfloor>(288692283805801 / 2 ^ 49 * 78 :: real)\<rfloor> = 39" by simp
qed

lemma is_double_eval:
  assumes "2 powi e \<le> \<bar>x\<bar>" "\<bar>x\<bar> < 2 powi (e + 1)" "- 1022 \<le> e" "e \<le> 1023"
    and "x / 2 powi (e - 52) = of_int N"
  shows "is_double x"
proof -
  have "to_double x = 2 powi (e - 52) * of_int (round_half_even (x / 2 powi (e - 52)))"
    using assms(1-4) by (rule to_double_eval)
  also have "\<dots> = 2 powi (e - 52) * (x / 2 powi (e - 52))"
    unfolding assms(5) by simp
  also have "\<dots> = x" by simp
  finally show ?thesis by (simp add: is_double_def)
qed

lemma is_double_0 [simp]: "is_double 0"
  by (simp add: is_double_def to_double_def)

lemma double_below_1:
  assumes "is_double r" "0 \<le> r" "r < 1"
  shows "r \<le> 1 - 1 / 2 ^ 53"
proof (cases "r < 1 / 2")
  case True
  then show ?thesis by simp
next
  case False
  then have h: "2 powi (- 1) \<le> \<bar>r\<bar>" "\<bar>r\<bar> < 2 powi (- 1 + 1)"
    using assms by (simp_all add: power_int_minus)
  have "to_double r = 2 powi (- 1 - 52) * of_int (round_half_even (r / 2 powi (- 1 - 52)))"
    using h by (rule to_double_eval) simp_all
  with assms(1) have r: "r = of_int (round_half_even (r * 2 ^ 53)) / 2 ^ 53"
    by (simp add: is_double_def power_int_minus field_simps)
  define N where "N = round_half_even (r * 2 ^ 53)"
  from r have rN: "r = of_int N / 2 ^ 53" by (simp add: N_def)
  with assms(3) have "real_of_int N < real_of_int (2 ^ 53)" by (simp add: field_simps)
  then have "N < 2 ^ 53" by (simp only: of_int_less_iff)
  then have "N \<le> 2 ^ 53 - 1" by simp
  then have "real_of_int N \<le> real_of_int (2 ^ 53 - 1)" by (simp only: of_int_le_iff)
  then have "real_of_int N \<le> 2 ^ 53 - 1" by simp
  then show ?thesis unfolding rN by (simp add: field_simps)
qed

lemma floor_product_in_range:
  assumes "is_double r" "0 \<le> r" "r < 1"
  shows "0 \<le> \<lfloor>to_double (r * 78)\<rfloor>" "\<lfloor>to_double (r * 78)\<rfloor> < 78"
proof -
  have x: "0 \<le> r * 78" "r * 78 < 128" using assms by simp_all
  have "real 0 \<le> to_double (r * 78)" using x by (intro to_double_ge_nat) simp_all
  then show "0 \<le> \<lfloor>to_double (r * 78)\<rfloor>" by simp
  from double_below_1 [OF assms] have "r * 78 \<le> 78 - 78 / 2 ^ 53" by simp
  moreover have "to_double (r * 78) \<le> r * 78 + 1 / 2 ^ 47"
    using x by (intro to_double_error_128) simp
  ultimately have "to_double (r * 78) < 78" by simp
  then show "\<lfloor>to_double (r * 78)\<rfloor> < 78" by (simp add: floor_less_iff)
qed

section \<open>Rendering and the invariant of the reachable states\<close>

lemma length_generateLayout [simp]: "length (generateLayout rnd k m) = 22"
  by (simp add: generateLayout_def)

lemma render_sel [simp]:
  "gameState (render rnd s) = gameState s"
  "question (render rnd s) = question s"
  "deck (render rnd s) = deck s"
  "selectedCards (render rnd s) = selectedCards s"
  "reading (render rnd s) = reading s"
  "loadingReading (render rnd s) = loadingReading s"
  "layoutSeed (render rnd s) = layoutSeed s"
  "screenWidth (render rnd s) = screenWidth s"
  "timers (render rnd s) = timers s"
  "requests (render rnd s) = requests s"
  "memoDeps (render rnd s) = layoutDeps s"
  by (simp_all add: render_def)

lemma isMobile_render [simp]: "isMobile (render rnd s) = isMobile s"
  by (simp add: isMobile_def)

lemma layoutDeps_render [simp]: "layoutDeps (render rnd s) = layoutDeps s"
  by (simp add: layoutDeps_def)

lemma rendered_render [simp]: "rendered (render rnd s)"
  by (simp add: rendered_def)

lemma render_id: "rendered s \<Longrightarrow> render rnd s = s"
  by (simp add: rendered_def render_def)

lemma length_cardLayout_render [simp]:
  "length (cardLayout (render rnd s)) = (if layoutDeps s = memoDeps s then length (cardLayout s) else 22)"
  by (simp add: render_def)

lemma consistent_mount: "consistent (mount rnd w)"
  by (simp add: consistent_def mount_def firstRender_def)

lemma filter_remove1_image [simp]:
  "filter isNarrative (remove1 (ImageRequest c) rs) = filter isNarrative rs"
  by (induction rs) auto

lemma list_all_remove1: "list_all P xs \<Longrightarrow> list_all P (remove1 x xs)"
  by (induction xs) auto

lemma map_cardId_merge [simp]:
  "map cardId (map (\<lambda>c. if cardId c = k then c\<lparr>imageUrl := u\<rparr> else c) cs) = map cardId cs"
  by (induction cs) auto

lemma mergeImage_sel [simp]:
  "gameState (mergeImage c u s) = gameState s"
  "question (mergeImage c u s) = question s"
  "deck (mergeImage c u s) = deck s"
  "reading (mergeImage c u s) = reading s"
  "loadingReading (mergeImage c u s) = loadingReading s"
  "layoutSeed (mergeImage c u s) = layoutSeed s"
  "screenWidth (mergeImage c u s) = screenWidth s"
  "cardLayout (mergeImage c u s) = cardLayout s"
  "memoDeps (mergeImage c u s) = memoDeps s"
  "randomCalls (mergeImage c u s) = randomCalls s"
  "timers (mergeImage c u s) = timers s"
  "requests (mergeImage c u s) = requests s"
  "map cardId (selectedCards (mergeImage c u s)) = map cardId (selectedCards s)"
  "length (selectedCards (mergeImage c u s)) = length (selectedCards s)"
  by (simp_all add: mergeImage_def split: option.splits)

lemma selectedCards_mergeImage_Nil [simp]:
  "selectedCards (mergeImage c u s) = [] \<longleftrightarrow> selectedCards s = []"
  by (simp add: mergeImage_def split: option.splits)

lemma filter_narr_single:
  "length (filter isNarrative rs) = 1 \<Longrightarrow> NarrativeRequest cs q \<in> set rs \<Longrightarrow>
   filter isNarrative (remove1 (NarrativeRequest cs q) rs) = []"
proof (induction rs)
  case Nil
  then show ?case by simp
next
  case (Cons r rs)
  show ?case
  proof (cases "r = NarrativeRequest cs q")
    case True
    with Cons.prems show ?thesis by simp
  next
    case False
    show ?thesis
    proof (cases "isNarrative r")
      case True
      with Cons.prems have "filter isNarrative rs = []" by simp
      with Cons.prems False have False by (auto simp: filter_empty_conv)
      then show ?thesis ..
    next
      case False
      with Cons \<open>r \<noteq> NarrativeRequest cs q\<close> show ?thesis by auto
    qed
  qed
qed

lemma narr_in_filter: "NarrativeRequest cs q \<in> set rs \<Longrightarrow> filter isNarrative rs \<noteq> []"
proof -
  assume "NarrativeRequest cs q \<in> set rs"
  moreover have "isNarrative (NarrativeRequest cs q)" by simp
  ultimately have "\<exists>x\<in>set rs. isNarrative x" by blast
  then show ?thesis by (simp add: filter_empty_conv)
qed

lemma requestOk_images [simp]: "list_all requestOk (map ImageRequest cs)"
  by (induction cs) auto

lemma filter_narr_images [simp]: "filter isNarrative (map ImageRequest cs) = []"
  by (induction cs) auto

lemma consistent_step:
  assumes "consistent s" "enabled s e"
  shows "consistent (step rnd e s)"
proof (cases e)
  case (Resize w)
  with assms show ?thesis
    by (auto simp: consistent_def step_def split: AppState.splits)
next
  case (ChangeQuestion q)
  with assms show ?thesis
    by (auto simp: consistent_def step_def rendered_def layoutDeps_def isMobile_def split: AppState.splits)
next
  case Start
  with assms show ?thesis 
    by (auto simp: consistent_def step_def handleStart_def rendered_def layoutDeps_def isMobile_def split: AppState.splits)
next
  case (SelectCard i)
  with assms show ?thesis
    by (auto simp: consistent_def step_def handleCardSelect_def Let_def rendered_def layoutDeps_def isMobile_def list_ex_iff split: AppState.splits)
next
  case Reset
  with assms show ?thesis 
    by (auto simp: consistent_def step_def resetGame_def rendered_def layoutDeps_def isMobile_def split: AppState.splits)
next
  case (Timeout t)
  with assms show ?thesis
  proof (cases t)
    case Timer2500
    with Timeout assms show ?thesis
      by (auto simp: consistent_def step_def rendered_def layoutDeps_def isMobile_def
          split: AppState.splits if_splits)
  next
    case (Timer1000 cs q)
    with Timeout assms have sel: "gameState s = Selecting" "length (selectedCards s) = 3"
      and ids: "map cardId cs = map cardId (selectedCards s)"
      by (auto simp: consistent_def split: AppState.splits if_splits)
    from ids have "length cs = length (selectedCards s)"
      by (rule map_eq_imp_length_eq)
    with sel have "length cs = 3" by simp
    with Timer1000 Timeout assms ids show ?thesis
      by (auto simp: consistent_def step_def generateReading_def rendered_def layoutDeps_def
          isMobile_def split: AppState.splits if_splits)
  qed
next
  case (ImageResult c res)
  with assms show ?thesis
    by (auto simp: consistent_def step_def rendered_def layoutDeps_def isMobile_def list_all_remove1 split: AppState.splits)
next
  case (NarrativeResult cs q res)
  with assms show ?thesis 
    by (auto simp: consistent_def step_def narrativeSettled_def rendered_def layoutDeps_def
        isMobile_def list_all_remove1 filter_narr_single narr_in_filter
        split: AppState.splits outcome.splits)
qed

lemma reachable_consistent: "reachable rnd s \<Longrightarrow> consistent s"
  by (induction rule: reachable.induct) (auto intro: consistent_mount consistent_step)

lemma run_reachable: "reachable rnd s \<Longrightarrow> run rnd es s = Some s' \<Longrightarrow> reachable rnd s'"
  by (induction es arbitrary: s) (auto split: if_splits intro: reachable.stepped)

section \<open>The generated layout\<close>

lemma generateLayout_nth:
  "i < 22 \<Longrightarrow> generateLayout rnd k m ! i = layoutSlot m (rnd (k + 2 * i)) (rnd (k + 2 * i + 1)) i"
  by (simp add: generateLayout_def)

lemma finalAngleRad_eq:
  "(- 90 + real i * (360 / 22)) * (pi / 180) + (r2 - 0.5) * 2 * pi / 180 =
   (- 90 + real i * (360 / 22) + (r2 - 1 / 2) * 2) * pi / 180"
  by (simp add: field_simps)

lemma layoutSlot_sel:
  "slot_angle (layoutSlot m r1 r2 i) = - 90 + real i * (360 / 22) + 90 + (r2 - 1 / 2) * 2"
  "slot_x (layoutSlot m r1 r2 i) =
     cos ((- 90 + real i * (360 / 22) + (r2 - 1 / 2) * 2) * pi / 180) *
       ((if m then 115 else 240) + (r1 - 1 / 2) * (if m then 4 else 8))"
  "slot_y (layoutSlot m r1 r2 i) =
     sin ((- 90 + real i * (360 / 22) + (r2 - 1 / 2) * 2) * pi / 180) *
       ((if m then 115 else 240) + (r1 - 1 / 2) * (if m then 4 else 8))"
  "slot_z (layoutSlot m r1 r2 i) = i"
  unfolding layoutSlot_def Let_def LayoutSlot.simps finalAngleRad_eq
  by simp_all

lemma jitter_bounds:
  assumes "0 \<le> r" "r < (1::real)"
  shows "\<bar>(r - 1 / 2) * 2\<bar> \<le> 1" "\<bar>(r - 1 / 2) * 4\<bar> \<le> 2" "\<bar>(r - 1 / 2) * 8\<bar> \<le> 4"
  using assms by (simp_all add: abs_le_iff)

lemma fire_frame [simp]:
  "memoDeps (fire t s) = memoDeps s"
  "cardLayout (fire t s) = cardLayout s"
  "randomCalls (fire t s) = randomCalls s"
  "layoutSeed (fire t s) = layoutSeed s"
  "screenWidth (fire t s) = screenWidth s"
  "deck (fire t s) = deck s"
  "question (fire t s) = question s"
  "selectedCards (fire t s) = selectedCards s"
  by (cases t; simp add: generateReading_def)+

lemma handler_memo [simp]:
  "memoDeps (handler rnd e s) = memoDeps s"
  "cardLayout (handler rnd e s) = cardLayout s"
  by (cases e; simp add: handleStart_def handleCardSelect_def Let_def resetGame_def
        narrativeSettled_def split: outcome.splits)+

lemma reachable_layout: "reachable rnd s \<Longrightarrow> \<exists>k. cardLayout s = generateLayout rnd k (isMobile s)"
proof (induction rule: reachable.induct)
  case (mounted w)
  show ?case
    by (auto simp: mount_def render_def firstRender_def isMobile_def layoutDeps_def)
next
  case (stepped s e)
  then obtain k where k: "cardLayout s = generateLayout rnd k (isMobile s)" by blast
  from stepped have r: "rendered s" using reachable_consistent by (auto simp: consistent_def)
  show ?case
  proof (cases "layoutDeps (handler rnd e s) = memoDeps (handler rnd e s)")
    case False
    then show ?thesis by (auto simp: step_def render_def isMobile_def)
  next
    case True
    have h: "memoDeps (handler rnd e s) = memoDeps s \<and> cardLayout (handler rnd e s) = cardLayout s"
      by simp
    with True r have "layoutDeps (handler rnd e s) = layoutDeps s"
      by (simp add: rendered_def)
    then have "isMobile (handler rnd e s) = isMobile s"
      by (simp add: layoutDeps_def)
    with True h k show ?thesis
      by (auto simp: step_def render_def)
  qed
qed

text \<open>
  Claim C3. In every reachable state the layout is one evaluation of the generator,
  and for every slot \<open>i\<close> of 0..21 of a generated layout: the base angle is
  \<open>-90 + i * 360/22\<close> degrees; the radius (115 compact, 240 full) is perturbed by a
  jitter read from one call of the random source, of magnitude at most 2 in compact and
  at most 4 in full display, hence within the claimed 4 and 8; the angle is perturbed by
  a jitter read from the next call, of magnitude at most 1 degree; the position is the
  point of that radius and angle; the rotation is the base angle plus 90 degrees plus
  the same angular jitter. The two jitters of a slot, and those of different slots, come
  from different calls of the random source.
\<close>

theorem cardLayout_slot:
  assumes "random_source rnd" and "reachable rnd s" and "i < 22"
  shows "\<exists>k. cardLayout s = generateLayout rnd k (isMobile s) \<and>
    (let slot = cardLayout s ! i;
         baseAngleDeg = - 90 + real i * (360 / 22);
         radius = (if isMobile s then 115 else 240);
         randomR = (rnd (k + 2 * i) - 1 / 2) * (if isMobile s then 4 else 8);
         randomAngle = (rnd (k + 2 * i + 1) - 1 / 2) * 2
     in length (cardLayout s) = 22 \<and>
        slot_z slot = i \<and>
        slot_angle slot = baseAngleDeg + 90 + randomAngle \<and>
        slot_x slot = cos ((baseAngleDeg + randomAngle) * pi / 180) * (radius + randomR) \<and>
        slot_y slot = sin ((baseAngleDeg + randomAngle) * pi / 180) * (radius + randomR) \<and>
        \<bar>randomAngle\<bar> \<le> 1 \<and>
        \<bar>randomR\<bar> \<le> (if isMobile s then 2 else 4) \<and>
        \<bar>randomR\<bar> \<le> (if isMobile s then 4 else 8))"
proof -
  from assms(2) obtain k where k: "cardLayout s = generateLayout rnd k (isMobile s)"
    using reachable_layout by blast
  from assms(1) have r1: "0 \<le> rnd (k + 2 * i)" "rnd (k + 2 * i) < 1"
    and r2: "0 \<le> rnd (k + 2 * i + 1)" "rnd (k + 2 * i + 1) < 1"
    by (simp_all add: random_source_def)
  have slot: "cardLayout s ! i = layoutSlot (isMobile s) (rnd (k + 2 * i)) (rnd (k + 2 * i + 1)) i"
    using k assms(3) by (simp add: generateLayout_nth)
  have ja: "\<bar>(rnd (k + 2 * i + 1) - 1 / 2) * 2\<bar> \<le> 1"
    using r2 by (rule jitter_bounds)
  have jr: "\<bar>(rnd (k + 2 * i) - 1 / 2) * (if isMobile s then 4 else 8)\<bar> \<le> (if isMobile s then 2 else 4)"
    using jitter_bounds(2,3) [OF r1] by simp
  then have jr': "\<bar>(rnd (k + 2 * i) - 1 / 2) * (if isMobile s then 4 else 8)\<bar> \<le> (if isMobile s then 4 else 8)"
    by (simp split: if_splits)
  have len: "length (cardLayout s) = 22"
    using k by simp
  show ?thesis
    unfolding Let_def slot layoutSlot_sel
    using k len ja jr jr' by (intro exI [of _ k]) simp
qed

theorem cardLayout_slot_witness:
  "random_source quarter \<and> reachable quarter (mount quarter 1000) \<and> (3::nat) < 22 \<and>
   slot_angle (cardLayout (mount quarter 1000) ! 3) = 3 * (360 / 22) - 1 / 2 \<and>
   slot_z (cardLayout (mount quarter 1000) ! 3) = 3"
proof -
  have a: "random_source quarter" by (simp add: random_source_def quarter_def)
  have b: "reachable quarter (mount quarter 1000)" by (rule reachable.mounted)
  have c: "(3::nat) < 22" by simp
  from cardLayout_slot [OF a b c] show ?thesis
    using a b by (auto simp: Let_def quarter_def)
qed

section \<open>Reset, selection, start and failures\<close>

lemma step_rendered: "rendered s \<Longrightarrow> layoutDeps (handler rnd e s) = layoutDeps s \<Longrightarrow> step rnd e s = handler rnd e s"
  by (simp add: step_def render_def rendered_def)

lemma handler_deps:
  "(\<forall>w. e \<noteq> Resize w) \<Longrightarrow> e \<noteq> Start \<Longrightarrow> layoutDeps (handler rnd e s) = layoutDeps s"
  by (cases e) (auto simp: layoutDeps_def isMobile_def handleCardSelect_def Let_def resetGame_def
      narrativeSettled_def split: outcome.splits)

lemma reachable_rendered: "reachable rnd s \<Longrightarrow> rendered s"
  using reachable_consistent by (auto simp: consistent_def)

text \<open>
  Claim C4, as amended. Reset, from any state consistent with its last render (any
  lifecycle state), gives the \<open>Input\<close> state with an empty question, no drawn cards and
  an empty narrative, in one update. It leaves every other field as it is: the layout
  is kept, and so are the loading flag, the deck, the screen width, the pending timers
  and the requests in flight.
\<close>

theorem reset_clears_session_keeps_layout:
  assumes "rendered s"
  shows "step rnd Reset s = s\<lparr>gameState := Input, question := [], selectedCards := [], reading := []\<rparr>
    \<and> cardLayout (step rnd Reset s) = cardLayout s
    \<and> loadingReading (step rnd Reset s) = loadingReading s
    \<and> timers (step rnd Reset s) = timers s
    \<and> requests (step rnd Reset s) = requests s"
proof -
  have "step rnd Reset s = handler rnd Reset s"
    using assms by (intro step_rendered handler_deps) auto
  then show ?thesis by (simp add: resetGame_def)
qed

lemma handler_count_le:
  "length (selectedCards s) \<le> 3 \<Longrightarrow> length (selectedCards (handler rnd e s)) \<le> 3"
  by (cases e) (auto simp: handleStart_def handleCardSelect_def Let_def resetGame_def
      narrativeSettled_def split: outcome.splits)

lemma handler_count_mono:
  "gameState (handler rnd e s) = Selecting \<Longrightarrow>
   length (selectedCards s) \<le> length (selectedCards (handler rnd e s))"
  by (cases e) (auto simp: handleStart_def handleCardSelect_def Let_def resetGame_def
      narrativeSettled_def split: outcome.splits)

text \<open>
  Claim C6. In every reachable state at most three cards are drawn; when three are
  drawn, selecting a slot changes nothing at all (no field changes, no random number is
  consumed, no timer is scheduled); no event takes the count above three; and no event
  that leaves the machine in \<open>Selecting\<close> decreases the count.
\<close>

theorem select_at_three_is_noop:
  assumes "reachable rnd s"
  shows "length (selectedCards s) \<le> 3 \<and>
    (length (selectedCards s) = 3 \<longrightarrow> step rnd (SelectCard i) s = s) \<and>
    length (selectedCards (step rnd e s)) \<le> 3 \<and>
    (gameState s = Selecting \<and> gameState (step rnd e s) = Selecting \<longrightarrow>
       length (selectedCards s) \<le> length (selectedCards (step rnd e s)))"
proof -
  from assms have c: "consistent s" by (rule reachable_consistent)
  then have le: "length (selectedCards s) \<le> 3"
    by (auto simp: consistent_def split: AppState.splits)
  have noop: "step rnd (SelectCard i) s = s" if "length (selectedCards s) = 3"
  proof -
    have "handler rnd (SelectCard i) s = s" using that by (simp add: handleCardSelect_def)
    then show ?thesis using c by (simp add: step_def render_id consistent_def)
  qed
  have "length (selectedCards (step rnd e s)) \<le> 3"
    using le by (simp add: step_def handler_count_le)
  moreover have "length (selectedCards s) \<le> length (selectedCards (step rnd e s))"
    if "gameState (step rnd e s) = Selecting"
    using that by (simp add: step_def handler_count_mono)
  ultimately show ?thesis using le noop by blast
qed

lemma trim_empty_iff: "trim q = [] \<longleftrightarrow> list_all js_whitespace q"
proof
  assume "list_all js_whitespace q"
  then have e: "dropWhile js_whitespace q = []" by (simp add: list_all_iff)
  show "trim q = []" unfolding trim_def e by simp
next
  assume "trim q = []"
  then have "dropWhile js_whitespace (rev (dropWhile js_whitespace q)) = []"
    by (simp add: trim_def)
  then have a: "\<forall>x\<in>set (dropWhile js_whitespace q). js_whitespace x"
    by (simp add: dropWhile_eq_Nil_conv)
  have "dropWhile js_whitespace q = []"
  proof (cases "dropWhile js_whitespace q")
    case Nil
    then show ?thesis .
  next
    case (Cons x xs)
    then have "\<not> js_whitespace x" using hd_dropWhile [of js_whitespace q] by simp
    with a Cons show ?thesis by simp
  qed
  then show "list_all js_whitespace q" by (simp add: list_all_iff dropWhile_eq_Nil_conv)
qed

text \<open>
  Claim C7. In a reachable \<open>Input\<close> state the start event leads to \<open>Shuffling\<close> exactly
  when the question is not empty after trimming, and trimming leaves nothing exactly
  when every code unit of the question is white space. A blocked start changes nothing.
  An accepted start increments the seed, schedules the shuffle timer and generates the
  layout afresh from the next 44 random numbers; the drawn cards are empty after it
  (they are empty in every reachable \<open>Input\<close> state; \<open>handleStart\<close> does not write them).
\<close>

theorem start_needs_question:
  assumes "reachable rnd s" and "gameState s = Input"
  shows "(trim (question s) = []) = list_all js_whitespace (question s) \<and>
    (gameState (step rnd Start s) = Shuffling) = (trim (question s) \<noteq> []) \<and>
    (trim (question s) = [] \<longrightarrow> step rnd Start s = s) \<and>
    (trim (question s) \<noteq> [] \<longrightarrow>
       step rnd Start s =
         s\<lparr>gameState := Shuffling, layoutSeed := layoutSeed s + 1, timers := [Timer2500],
           cardLayout := generateLayout rnd (randomCalls s) (isMobile s),
           memoDeps := (layoutSeed s + 1, screenWidth s, isMobile s),
           randomCalls := randomCalls s + 44\<rparr> \<and>
       selectedCards (step rnd Start s) = [])"
proof -
  from assms have c: "consistent s" using reachable_consistent by blast
  with assms(2) have t: "timers s = []" and sel: "selectedCards s = []" and r: "rendered s"
    by (auto simp: consistent_def)
  have a: "step rnd Start s = s" if "trim (question s) = []"
    using that r by (simp add: step_def handleStart_def render_id)
  have b: "step rnd Start s =
         s\<lparr>gameState := Shuffling, layoutSeed := layoutSeed s + 1, timers := [Timer2500],
           cardLayout := generateLayout rnd (randomCalls s) (isMobile s),
           memoDeps := (layoutSeed s + 1, screenWidth s, isMobile s),
           randomCalls := randomCalls s + 44\<rparr>" if "trim (question s) \<noteq> []"
    using that r t
    by (simp add: step_def handleStart_def render_def rendered_def layoutDeps_def isMobile_def)
  have g: "gameState (step rnd Start s) = (if trim (question s) = [] then Input else Shuffling)"
    using assms(2) by (simp add: step_def handleStart_def)
  have e: "selectedCards (step rnd Start s) = []"
    using sel by (simp add: step_def handleStart_def)
  show ?thesis
  proof (intro conjI impI)
    show "(trim (question s) = []) = list_all js_whitespace (question s)"
      by (rule trim_empty_iff)
    show "(gameState (step rnd Start s) = Shuffling) = (trim (question s) \<noteq> [])"
      unfolding g by simp
    show "step rnd Start s = s" if "trim (question s) = []"
      using that by (rule a)
    show "step rnd Start s =
         s\<lparr>gameState := Shuffling, layoutSeed := layoutSeed s + 1, timers := [Timer2500],
           cardLayout := generateLayout rnd (randomCalls s) (isMobile s),
           memoDeps := (layoutSeed s + 1, screenWidth s, isMobile s),
           randomCalls := randomCalls s + 44\<rparr>" if "trim (question s) \<noteq> []"
      using that by (rule b)
    show "selectedCards (step rnd Start s) = []" by (rule e)
  qed
qed

lemma messages_nonempty: "errorMessage \<noteq> []" "silentMessage \<noteq> []"
  by (simp_all add: errorMessage_def silentMessage_def ascii_def)

lemma generateCardImageBody_normal: "generateCardImageBody res = Normal (generateCardImage res)"
  by (simp add: generateCardImageBody_def generateCardImage_def tryCatch_def await_def
      split: outcome.splits)

lemma narrativeBody_normal: "narrativeBody res s = (Normal (), narrativeSettled res s)"
  by (simp add: narrativeBody_def narrativeSettled_def await_def split: outcome.splits)

lemma reading_view_is_terminal:
  assumes "reachable rnd s" "gameState s = Reading" "\<not> loadingReading s"
    and "enabled s e" "e \<noteq> Reset"
  shows "reading (step rnd e s) = reading s \<and> gameState (step rnd e s) = Reading \<and>
         \<not> loadingReading (step rnd e s)"
proof -
  from assms(1) have c: "consistent s" by (rule reachable_consistent)
  with assms(2,3) have t: "timers s = []" and n: "filter isNarrative (requests s) = []"
    by (auto simp: consistent_def)
  show ?thesis
  proof (cases e)
    case (Timeout t')
    with assms(4) t show ?thesis by simp
  next
    case (NarrativeResult cs q res)
    with assms(4) have "filter isNarrative (requests s) \<noteq> []" by (simp add: narr_in_filter)
    with n show ?thesis by simp
  next
    case (ImageResult c res)
    with assms(2,3) show ?thesis by (simp add: step_def)
  next
    case (Resize w)
    with assms(2,3) show ?thesis by (simp add: step_def)
  qed (use assms in auto)
qed

text \<open>
  Claim C8. No failure of a service leaves its continuation as an exception: the body
  of \<open>generateCardImage\<close> completes normally whatever the request does, with the value
  the handler uses, so does the callback that merges it, and so does the narrative's
  \<^verbatim>\<open>try\<close>, \<^verbatim>\<open>catch\<close> and \<^verbatim>\<open>finally\<close>, leaving the state the handler computes. A failed
  image request, or a response without image data, changes nothing but the list of
  requests in flight: every card keeps the artwork it had and none is substituted. A
  rejected narrative request sets the narrative to the error message, a response without
  text sets it to the other fallback message; both are written out below and neither is
  empty. After any narrative result the view stays \<open>Reading\<close> with the loading flag
  cleared, a narrative that is not empty, no timer pending and no narrative request in
  flight (nothing is retried), and the reset is offered. From then on no event but the
  reset changes the narrative.
\<close>

theorem service_failures_stay_in_band:
  assumes "reachable rnd s"
  shows
    "generateCardImageBody res = Normal (generateCardImage res) \<and>
     imageCallback c res s = Normal (mergeImage c (generateCardImage res) s) \<and>
     narrativeBody nres s = (Normal (), narrativeSettled nres s) \<and>
     generateCardImage Rejected = None \<and>
     generateCardImage (Fulfilled None) = None \<and>
     generateCardImage (Fulfilled (Some [])) = None \<and>
     (generateCardImage res = None \<longrightarrow>
        step rnd (ImageResult c res) s = s\<lparr>requests := remove1 (ImageRequest c) (requests s)\<rparr>) \<and>
     step rnd (NarrativeResult cs q Rejected) s =
       s\<lparr>reading := ascii
            ''An error occurred while communing with the spirits. Please check your connection and try again.'',
         loadingReading := False,
         requests := remove1 (NarrativeRequest cs q) (requests s)\<rparr> \<and>
     step rnd (NarrativeResult cs q (Fulfilled None)) s =
       s\<lparr>reading := ascii ''The spirits are silent. Please try again.'',
         loadingReading := False,
         requests := remove1 (NarrativeRequest cs q) (requests s)\<rparr> \<and>
     step rnd (NarrativeResult cs q (Fulfilled (Some []))) s =
       step rnd (NarrativeResult cs q (Fulfilled None)) s \<and>
     (enabled s (NarrativeResult cs q nres) \<longrightarrow>
        gameState (step rnd (NarrativeResult cs q nres) s) = Reading \<and>
        \<not> loadingReading (step rnd (NarrativeResult cs q nres) s) \<and>
        reading (step rnd (NarrativeResult cs q nres) s) \<noteq> [] \<and>
        timers (step rnd (NarrativeResult cs q nres) s) = [] \<and>
        filter isNarrative (requests (step rnd (NarrativeResult cs q nres) s)) = [] \<and>
        enabled (step rnd (NarrativeResult cs q nres) s) Reset) \<and>
     (gameState s = Reading \<and> \<not> loadingReading s \<and> enabled s e \<and> e \<noteq> Reset \<longrightarrow>
        reading (step rnd e s) = reading s \<and> gameState (step rnd e s) = Reading \<and>
        \<not> loadingReading (step rnd e s))"
proof -
  from assms have c: "consistent s" by (rule reachable_consistent)
  then have r: "rendered s" by (simp add: consistent_def)
  have d1: "step rnd (ImageResult c res) s = handler rnd (ImageResult c res) s"
    using r by (intro step_rendered handler_deps) auto
  have d2: "step rnd (NarrativeResult cs q x) s = handler rnd (NarrativeResult cs q x) s" for x
    using r by (intro step_rendered handler_deps) auto
  have body: "generateCardImageBody res = Normal (generateCardImage res)"
    by (rule generateCardImageBody_normal)
  have cb: "imageCallback c res s = Normal (mergeImage c (generateCardImage res) s)"
    by (simp add: imageCallback_def generateCardImageBody_normal)
  have nb: "narrativeBody nres s = (Normal (), narrativeSettled nres s)"
    by (rule narrativeBody_normal)
  have none: "generateCardImage Rejected = None" "generateCardImage (Fulfilled None) = None"
    "generateCardImage (Fulfilled (Some [])) = None"
    by (simp_all add: generateCardImage_def)
  have img: "step rnd (ImageResult c res) s = s\<lparr>requests := remove1 (ImageRequest c) (requests s)\<rparr>"
    if "generateCardImage res = None"
    unfolding d1 using that by (simp add: mergeImage_def)
  have rej: "step rnd (NarrativeResult cs q Rejected) s =
       s\<lparr>reading := ascii
            ''An error occurred while communing with the spirits. Please check your connection and try again.'',
         loadingReading := False,
         requests := remove1 (NarrativeRequest cs q) (requests s)\<rparr>"
    unfolding d2 by (simp add: narrativeSettled_def errorMessage_def)
  have sil: "step rnd (NarrativeResult cs q (Fulfilled None)) s =
       s\<lparr>reading := ascii ''The spirits are silent. Please try again.'',
         loadingReading := False,
         requests := remove1 (NarrativeRequest cs q) (requests s)\<rparr>"
    unfolding d2 by (simp add: narrativeSettled_def silentMessage_def)
  have emp: "step rnd (NarrativeResult cs q (Fulfilled (Some []))) s =
       step rnd (NarrativeResult cs q (Fulfilled None)) s"
    unfolding d2 by (simp add: narrativeSettled_def)
  have after: "gameState (step rnd (NarrativeResult cs q nres) s) = Reading \<and>
        \<not> loadingReading (step rnd (NarrativeResult cs q nres) s) \<and>
        reading (step rnd (NarrativeResult cs q nres) s) \<noteq> [] \<and>
        timers (step rnd (NarrativeResult cs q nres) s) = [] \<and>
        filter isNarrative (requests (step rnd (NarrativeResult cs q nres) s)) = [] \<and>
        enabled (step rnd (NarrativeResult cs q nres) s) Reset"
    if en: "enabled s (NarrativeResult cs q nres)"
  proof -
    from en have "filter isNarrative (requests s) \<noteq> []" by (simp add: narr_in_filter)
    with c have l: "loadingReading s" "gameState s = Reading" by (auto simp: consistent_def)
    with c have t: "timers s = []" by (auto simp: consistent_def)
    from assms en have "reachable rnd (step rnd (NarrativeResult cs q nres) s)"
      by (rule reachable.stepped)
    then have "consistent (step rnd (NarrativeResult cs q nres) s)"
      by (rule reachable_consistent)
    moreover have g: "gameState (step rnd (NarrativeResult cs q nres) s) = Reading"
      "\<not> loadingReading (step rnd (NarrativeResult cs q nres) s)"
      "timers (step rnd (NarrativeResult cs q nres) s) = []"
      unfolding d2 using l t by (simp_all add: narrativeSettled_def split: outcome.splits)
    moreover have "reading (step rnd (NarrativeResult cs q nres) s) \<noteq> []"
      unfolding d2 using messages_nonempty
      by (simp add: narrativeSettled_def split: outcome.splits option.splits)
    ultimately show ?thesis by (auto simp: consistent_def)
  qed
  have terminal: "reading (step rnd e s) = reading s \<and> gameState (step rnd e s) = Reading \<and>
        \<not> loadingReading (step rnd e s)"
    if "gameState s = Reading \<and> \<not> loadingReading s \<and> enabled s e \<and> e \<noteq> Reset"
    using reading_view_is_terminal [OF assms] that by blast
  show ?thesis
    using body cb nb none img rej sil emp after terminal by blast
qed

section \<open>The draw, and when the layout is regenerated\<close>

lemma length_FULL_DECK [simp]: "length FULL_DECK = 78"
  by (simp add: FULL_DECK_def MAJOR_ARCANA_def SUITS_def RANKS_def length_concat)

text \<open>
  Claim C5. An accepted selection (fewer than three cards drawn) appends one card whose
  name is \<open>FULL_DECK ! k\<close>, where \<open>k\<close> is the floor of the double product of the next
  random number \<open>r1\<close> and 78; \<open>k\<close> is always a position of the deck. Whatever cards are
  drawn already (nothing is removed from the deck, nothing is compared with the earlier
  draws), each of the 78 positions \<open>j\<close> is drawn for every \<open>r1\<close> from \<open>j/78\<close> up to
  \<open>(j+1)/78\<close> less one rounding error, and for no \<open>r1\<close> outside \<open>[j/78, (j+1)/78)\<close>
  widened below by one rounding error: 78 intervals of equal length, up to the rounding
  of the product (at most 2 to the -47). The card is reversed exactly when the following
  random number \<open>r2\<close> exceeds the number \<^verbatim>\<open>0.8\<close>, the double nearest to 0.8: an interval
  of length 0.2, less that double's distance from 0.8.
\<close>

theorem draw_is_uniform_with_replacement:
  assumes "double_source rnd" and "reachable rnd s" and "length (selectedCards s) < 3"
  shows
    "let r1 = rnd (randomCalls s); r2 = rnd (randomCalls s + 1);
         k = nat \<lfloor>to_double (r1 * 78)\<rfloor> in
       k < 78 \<and>
       selectedCards (step rnd (SelectCard i) s) =
         selectedCards s @
           [\<lparr>name = Some (FULL_DECK ! k), isReversed = (r2 > to_double 0.8), cardId = i,
             originalIndex = None, imageUrl = None\<rparr>] \<and>
       randomCalls (step rnd (SelectCard i) s) = randomCalls s + 2 \<and>
       to_double 0.8 = 3602879701896397 / 2 ^ 52 \<and>
       (\<forall>j < 78.
          (real j / 78 \<le> r1 \<and> r1 < (real j + 1 - 1 / 2 ^ 47) / 78 \<longrightarrow> k = j) \<and>
          (k = j \<longrightarrow> (real j - 1 / 2 ^ 47) / 78 \<le> r1 \<and> r1 < (real j + 1) / 78))"
proof -
  let ?r = "rnd (randomCalls s)"
  let ?x = "?r * 78"
  from assms(2) have d: "deck s = FULL_DECK"
    using reachable_consistent by (auto simp: consistent_def)
  from assms(1) have r: "is_double ?r" "0 \<le> ?r" "?r < 1"
    by (simp_all add: double_source_def)
  note f = floor_product_in_range [OF r]
  have x: "0 \<le> ?x" "?x < 128" using r by simp_all
  have k: "nat \<lfloor>to_double ?x\<rfloor> < 78" using f by linarith
  have "js_index FULL_DECK \<lfloor>to_double ?x\<rfloor> = Some (FULL_DECK ! nat \<lfloor>to_double ?x\<rfloor>)"
    using f by (simp add: js_index_def)
  then have sel: "selectedCards (step rnd (SelectCard i) s) =
         selectedCards s @
           [\<lparr>name = Some (FULL_DECK ! nat \<lfloor>to_double ?x\<rfloor>),
             isReversed = (rnd (randomCalls s + 1) > to_double 0.8), cardId = i,
             originalIndex = None, imageUrl = None\<rparr>]"
    using assms(3) d by (simp add: step_def handleCardSelect_def Let_def)
  have calls: "randomCalls (step rnd (SelectCard i) s) = randomCalls s + 2"
    using assms(3) reachable_rendered [OF assms(2)]
    by (simp add: step_def handleCardSelect_def Let_def render_def rendered_def layoutDeps_def
        isMobile_def)
  have lit: "to_double 0.8 = 3602879701896397 / 2 ^ 52"
    unfolding to_double_0_8 by simp
  have fwd: "nat \<lfloor>to_double ?x\<rfloor> = j"
    if "real j / 78 \<le> ?r \<and> ?r < (real j + 1 - 1 / 2 ^ 47) / 78" for j
  proof -
    from that have "real j \<le> ?x" "?x < real j + 1 - 1 / 2 ^ 47" by (simp_all add: field_simps)
    then have "\<lfloor>to_double ?x\<rfloor> = int j" using x(2) by (rule floor_to_double)
    then show ?thesis by simp
  qed
  have bwd: "(real j - 1 / 2 ^ 47) / 78 \<le> ?r \<and> ?r < (real j + 1) / 78"
    if "nat \<lfloor>to_double ?x\<rfloor> = j" for j
  proof -
    from that f(1) have "\<lfloor>to_double ?x\<rfloor> = int j" by linarith
    from floor_to_double_conv [OF this x] show ?thesis by (simp add: field_simps)
  qed
  show ?thesis
    unfolding Let_def using k sel calls lit fwd bwd by blast
qed

text \<open>
  Claim C2, as amended. The layout is generated afresh, from the next 44 random
  numbers, exactly when the seed or the screen width changes: on every accepted start
  and on every resize to a different width, even when the compactness stays the same.
  Every other event, and a resize to the same width, leaves the layout unchanged.
\<close>

theorem layout_regenerated_on_start_and_width_change:
  assumes "rendered s"
  shows "cardLayout (step rnd (Resize w) s) =
           (if w = screenWidth s then cardLayout s
            else generateLayout rnd (randomCalls s) (w < 768)) \<and>
         cardLayout (step rnd Start s) =
           (if trim (question s) = [] then cardLayout s
            else generateLayout rnd (randomCalls s) (isMobile s)) \<and>
         ((\<forall>w. e \<noteq> Resize w) \<and> e \<noteq> Start \<longrightarrow> cardLayout (step rnd e s) = cardLayout s)"
proof (intro conjI impI)
  show "cardLayout (step rnd (Resize w) s) =
           (if w = screenWidth s then cardLayout s
            else generateLayout rnd (randomCalls s) (w < 768))"
    using assms by (auto simp: step_def render_def rendered_def layoutDeps_def isMobile_def)
  show "cardLayout (step rnd Start s) =
           (if trim (question s) = [] then cardLayout s
            else generateLayout rnd (randomCalls s) (isMobile s))"
    using assms
    by (auto simp: step_def render_def rendered_def layoutDeps_def isMobile_def handleStart_def)
  show "cardLayout (step rnd e s) = cardLayout s" if "(\<forall>w. e \<noteq> Resize w) \<and> e \<noteq> Start"
  proof -
    have "step rnd e s = handler rnd e s"
      using assms that by (intro step_rendered handler_deps) auto
    then show ?thesis by simp
  qed
qed

section \<open>Merging results\<close>

lemma render_idem [simp]: "render rnd (render rnd s) = render rnd s"
  by (simp add: render_id)

lemma mergeImage_render: "mergeImage c u (render rnd s) = render rnd (mergeImage c u s)"
  by (simp add: mergeImage_def render_def layoutDeps_def isMobile_def split: option.splits)

lemma narrativeSettled_render: "narrativeSettled r (render rnd s) = render rnd (narrativeSettled r s)"
  by (simp add: narrativeSettled_def render_def layoutDeps_def isMobile_def split: outcome.splits)

lemma requests_update_render:
  "(render rnd s)\<lparr>requests := rs\<rparr> = render rnd (s\<lparr>requests := rs\<rparr>)"
  by (simp add: render_def layoutDeps_def isMobile_def)

lemma step_image: "step rnd (ImageResult c r) (render rnd s) = render rnd (handler rnd (ImageResult c r) s)"
  by (simp add: step_def mergeImage_render requests_update_render)

lemma step_narrative:
  "step rnd (NarrativeResult cs q r) (render rnd s) = render rnd (handler rnd (NarrativeResult cs q r) s)"
  by (simp add: step_def narrativeSettled_render requests_update_render)

lemma distinct_cardId_nth:
  "distinct (map cardId cs) \<Longrightarrow> i < length cs \<Longrightarrow> j < length cs \<Longrightarrow>
   cardId (cs ! i) = cardId (cs ! j) \<Longrightarrow> i = j"
  using nth_eq_iff_index_eq [of "map cardId cs" i j] by simp

lemma map_merge_commute:
  "k1 \<noteq> k2 \<Longrightarrow>
   map (\<lambda>c. if cardId c = k1 then c\<lparr>imageUrl := u\<rparr> else c)
     (map (\<lambda>c. if cardId c = k2 then c\<lparr>imageUrl := v\<rparr> else c) cs) =
   map (\<lambda>c. if cardId c = k2 then c\<lparr>imageUrl := v\<rparr> else c)
     (map (\<lambda>c. if cardId c = k1 then c\<lparr>imageUrl := u\<rparr> else c) cs)"
  by (induction cs) auto

lemma merge_merge:
  assumes "cardId c1 \<noteq> cardId c2"
  shows "handler rnd (ImageResult c1 r1) (handler rnd (ImageResult c2 r2) s) =
         handler rnd (ImageResult c2 r2) (handler rnd (ImageResult c1 r1) s)"
  by (simp add: mergeImage_def remove1_commute map_merge_commute [OF assms]
      del: map_map split: option.splits)

lemma merge_narrative:
  "handler rnd (ImageResult c r) (handler rnd (NarrativeResult cs q nr) s) =
   handler rnd (NarrativeResult cs q nr) (handler rnd (ImageResult c r) s)"
  by (simp add: mergeImage_def narrativeSettled_def remove1_commute split: option.splits outcome.splits)

lemma step_image_image:
  assumes "cardId c1 \<noteq> cardId c2"
  shows "step rnd (ImageResult c1 r1) (step rnd (ImageResult c2 r2) s) =
         step rnd (ImageResult c2 r2) (step rnd (ImageResult c1 r1) s)"
  unfolding step_def [of rnd _ s] step_image
  using merge_merge [OF assms] by simp

lemma step_image_narrative:
  "step rnd (ImageResult c r) (step rnd (NarrativeResult cs q nr) s) =
   step rnd (NarrativeResult cs q nr) (step rnd (ImageResult c r) s)"
  unfolding step_def [of rnd _ s] step_image step_narrative
  using merge_narrative by simp

lemma completions_commute:
  assumes "distinct (map cardId cards)" "length irs = length cards"
    and "x \<in> set (completions cards q irs nr)" "y \<in> set (completions cards q irs nr)"
  shows "step rnd x \<circ> step rnd y = step rnd y \<circ> step rnd x"
proof (cases "x = y")
  case True
  then show ?thesis by simp
next
  case False
  have img: "cardId c1 \<noteq> cardId c2"
    if "(c1, r1) \<in> set (zip cards irs)" "(c2, r2) \<in> set (zip cards irs)"
       "ImageResult c1 r1 \<noteq> ImageResult c2 r2" for c1 r1 c2 r2
  proof
    assume eq: "cardId c1 = cardId c2"
    from that(1) obtain i where i: "i < length cards" "cards ! i = c1" "irs ! i = r1"
      by (auto simp: set_zip)
    from that(2) obtain j where j: "j < length cards" "cards ! j = c2" "irs ! j = r2"
      by (auto simp: set_zip)
    from eq i j have "cardId (cards ! i) = cardId (cards ! j)" by simp
    with assms(1) i j have "i = j" by (blast dest: distinct_cardId_nth)
    with i j that(3) show False by simp
  qed
  from assms(3) consider (xn) "x = NarrativeResult cards q nr"
    | (xi) c1 r1 where "(c1, r1) \<in> set (zip cards irs)" "x = ImageResult c1 r1"
    by (auto simp: completions_def)
  then show ?thesis
  proof cases
    case xn
    from assms(4) consider (yn) "y = NarrativeResult cards q nr"
      | (yi) c2 r2 where "(c2, r2) \<in> set (zip cards irs)" "y = ImageResult c2 r2"
      by (auto simp: completions_def)
    then show ?thesis
    proof cases
      case yn
      with xn False show ?thesis by simp
    next
      case yi
      with xn show ?thesis by (simp add: fun_eq_iff step_image_narrative)
    qed
  next
    case xi
    from assms(4) consider (yn) "y = NarrativeResult cards q nr"
      | (yi) c2 r2 where "(c2, r2) \<in> set (zip cards irs)" "y = ImageResult c2 r2"
      by (auto simp: completions_def)
    then show ?thesis
    proof cases
      case yn
      with xi show ?thesis by (simp add: fun_eq_iff step_image_narrative)
    next
      case yi
      with xi False have "cardId c1 \<noteq> cardId c2" by (intro img) auto
      with xi yi show ?thesis by (simp add: fun_eq_iff step_image_image)
    qed
  qed
qed

lemma merge_exactly_one:
  assumes "distinct (map cardId cs)" "j < length cs" "cardId (cs ! j) = k"
  shows "map (\<lambda>d. if cardId d = k then d\<lparr>imageUrl := u\<rparr> else d) cs = cs[j := (cs ! j)\<lparr>imageUrl := u\<rparr>]"
proof (rule nth_equalityI)
  show "length (map (\<lambda>d. if cardId d = k then d\<lparr>imageUrl := u\<rparr> else d) cs) =
        length (cs[j := (cs ! j)\<lparr>imageUrl := u\<rparr>])" by simp
next
  fix i assume "i < length (map (\<lambda>d. if cardId d = k then d\<lparr>imageUrl := u\<rparr> else d) cs)"
  then have i: "i < length cs" by simp
  have "cardId (cs ! i) = k \<longleftrightarrow> i = j"
    using distinct_cardId_nth [OF assms(1) i assms(2)] assms(3) by auto
  then show "map (\<lambda>d. if cardId d = k then d\<lparr>imageUrl := u\<rparr> else d) cs ! i =
        cs[j := (cs ! j)\<lparr>imageUrl := u\<rparr>] ! i"
    using i assms(2) by (auto simp: nth_list_update)
qed

lemma generateCardImage_nonempty: "generateCardImage res = Some u \<Longrightarrow> u \<noteq> []"
proof -
  have "firstInlineData ps = Some u \<Longrightarrow> u \<noteq> []" for ps
    by (induction ps) (auto simp: ascii_def split: option.splits)
  then show "generateCardImage res = Some u \<Longrightarrow> u \<noteq> []"
    by (auto simp: generateCardImage_def split: outcome.splits)
qed

text \<open>
  Claim C9. In a reachable state, an image result with a data URL changes only the
  drawn cards (and leaves the list of requests in flight): every other field of the state
  is unchanged, and the drawn card whose slot is the request's gets the URL; no two drawn
  cards share a slot, so this is one card, at one position of the sequence, and all
  others are unchanged. For a run of \<open>generateReading\<close> in flight, the final state is
  the same in whatever order its narrative result and its image results arrive.
\<close>

theorem artwork_merge_is_partial_and_commutes:
  assumes "reachable rnd s"
  shows
    "(generateCardImage res = Some u \<longrightarrow>
        step rnd (ImageResult c res) s =
          s\<lparr>requests := remove1 (ImageRequest c) (requests s),
            selectedCards :=
              map (\<lambda>d. if cardId d = cardId c then d\<lparr>imageUrl := Some u\<rparr> else d)
                (selectedCards s)\<rparr> \<and>
        (\<forall>j < length (selectedCards s). cardId (selectedCards s ! j) = cardId c \<longrightarrow>
           selectedCards (step rnd (ImageResult c res) s) =
             (selectedCards s)[j := (selectedCards s ! j)\<lparr>imageUrl := Some u\<rparr>])) \<and>
     (NarrativeRequest cards q \<in> set (requests s) \<and> length irs = length cards \<and>
      mset es = mset (completions cards q irs nr) \<longrightarrow>
        fold (step rnd) es s = fold (step rnd) (completions cards q irs nr) s)"
proof (intro conjI impI allI)
  from assms have c: "consistent s" by (rule reachable_consistent)
  then have r: "rendered s" and d: "distinct (map cardId (selectedCards s))"
    by (auto simp: consistent_def)
  have st: "step rnd (ImageResult c res) s = handler rnd (ImageResult c res) s"
    using r by (intro step_rendered handler_deps) auto
  {
    assume g: "generateCardImage res = Some u"
    then have "u \<noteq> []" by (rule generateCardImage_nonempty)
    with g show e: "step rnd (ImageResult c res) s =
          s\<lparr>requests := remove1 (ImageRequest c) (requests s),
            selectedCards :=
              map (\<lambda>d. if cardId d = cardId c then d\<lparr>imageUrl := Some u\<rparr> else d)
                (selectedCards s)\<rparr>"
      unfolding st by (simp add: mergeImage_def)
    fix j assume "j < length (selectedCards s)" "cardId (selectedCards s ! j) = cardId c"
    then show "selectedCards (step rnd (ImageResult c res) s) =
             (selectedCards s)[j := (selectedCards s ! j)\<lparr>imageUrl := Some u\<rparr>]"
      unfolding e using merge_exactly_one [OF d] by simp
  }
  {
    assume a: "NarrativeRequest cards q \<in> set (requests s) \<and> length irs = length cards \<and>
      mset es = mset (completions cards q irs nr)"
    with c have "requestOk (NarrativeRequest cards q)"
      by (auto simp: consistent_def list_all_iff)
    then have dc: "distinct (map cardId cards)" by simp
    have "fold (step rnd) (completions cards q irs nr) = fold (step rnd) es"
      using completions_commute [OF dc] a by (intro fold_multiset_equiv) auto
    then show "fold (step rnd) es s = fold (step rnd) (completions cards q irs nr) s"
      by simp
  }
qed

lemma map_withoutImage_merge:
  "map withoutImage (map (\<lambda>d. if cardId d = k then d\<lparr>imageUrl := u\<rparr> else d) cs) = map withoutImage cs"
  by (induction cs) (auto simp: withoutImage_def)

lemma merge_no_match:
  "\<not> list_ex (\<lambda>d. cardId d = k) cs \<Longrightarrow>
   map (\<lambda>d. if cardId d = k then d\<lparr>imageUrl := u\<rparr> else d) cs = cs"
  by (induction cs) auto

text \<open>
  The handlers themselves invalidate nothing: \<open>resetGame\<close> leaves the pending timers
  and the requests in flight where they are, and a timer's callback writes the lifecycle
  state whatever it finds. It is the page that never offers the reset while a timer is
  pending.
\<close>

lemma reset_keeps_timers:
  "timers (resetGame s) = timers s \<and> requests (resetGame s) = requests s \<and>
   gameState (fire Timer2500 (resetGame s)) = Selecting"
  by (simp add: resetGame_def)

text \<open>
  Claim C1, as amended. Reset is offered only when no timer is pending and no narrative
  request is in flight, so no timer fires and no narrative resolves after a reset that
  was scheduled or issued before it. An image result that resolves after the reset is
  not discarded: it is merged by slot into the drawn cards of the state it arrives in,
  and when it carries a data URL, every drawn card with the request's slot gets that URL
  as its artwork, whatever session drew the card. It never changes the lifecycle state,
  the question, the narrative, the loading flag, the layout, the timers, or anything of
  a drawn card but its artwork; and it changes nothing when no drawn card has its slot,
  as is the case right after the reset.
\<close>

theorem stale_results_after_reset:
  assumes "reachable rnd s"
  shows
    "(enabled s Reset \<longrightarrow>
        timers s = [] \<and> filter isNarrative (requests s) = [] \<and>
        timers (step rnd Reset s) = [] \<and> requests (step rnd Reset s) = requests s \<and>
        step rnd (ImageResult c res) (step rnd Reset s) =
          (step rnd Reset s)\<lparr>requests := remove1 (ImageRequest c) (requests s)\<rparr>) \<and>
     gameState (step rnd (ImageResult c res) s) = gameState s \<and>
     question (step rnd (ImageResult c res) s) = question s \<and>
     reading (step rnd (ImageResult c res) s) = reading s \<and>
     loadingReading (step rnd (ImageResult c res) s) = loadingReading s \<and>
     cardLayout (step rnd (ImageResult c res) s) = cardLayout s \<and>
     timers (step rnd (ImageResult c res) s) = timers s \<and>
     map withoutImage (selectedCards (step rnd (ImageResult c res) s)) =
       map withoutImage (selectedCards s) \<and>
     (\<not> list_ex (\<lambda>d. cardId d = cardId c) (selectedCards s) \<longrightarrow>
        step rnd (ImageResult c res) s = s\<lparr>requests := remove1 (ImageRequest c) (requests s)\<rparr>) \<and>
     (generateCardImage res = Some u \<longrightarrow>
        selectedCards (step rnd (ImageResult c res) s) =
          map (\<lambda>d. if cardId d = cardId c then d\<lparr>imageUrl := Some u\<rparr> else d) (selectedCards s) \<and>
        (\<forall>j < length (selectedCards s).
           imageUrl (selectedCards (step rnd (ImageResult c res) s) ! j) =
             (if cardId (selectedCards s ! j) = cardId c then Some u
              else imageUrl (selectedCards s ! j)))) \<and>
     (generateCardImage res = None \<longrightarrow>
        selectedCards (step rnd (ImageResult c res) s) = selectedCards s)"
proof -
  from assms have c: "consistent s" by (rule reachable_consistent)
  then have r: "rendered s" by (simp add: consistent_def)
  have st: "step rnd (ImageResult c res) s = handler rnd (ImageResult c res) s"
    using r by (intro step_rendered handler_deps) auto
  have frame: "gameState (step rnd (ImageResult c res) s) = gameState s \<and>
     question (step rnd (ImageResult c res) s) = question s \<and>
     reading (step rnd (ImageResult c res) s) = reading s \<and>
     loadingReading (step rnd (ImageResult c res) s) = loadingReading s \<and>
     cardLayout (step rnd (ImageResult c res) s) = cardLayout s \<and>
     timers (step rnd (ImageResult c res) s) = timers s"
    unfolding st by simp
  have cards: "map withoutImage (selectedCards (step rnd (ImageResult c res) s)) =
       map withoutImage (selectedCards s)"
    unfolding st by (simp add: mergeImage_def withoutImage_def split: option.splits)
  have nomatch: "step rnd (ImageResult c res) s = s\<lparr>requests := remove1 (ImageRequest c) (requests s)\<rparr>"
    if "\<not> list_ex (\<lambda>d. cardId d = cardId c) (selectedCards s)"
    unfolding st using that by (simp add: mergeImage_def merge_no_match split: option.splits)
  have merged: "selectedCards (step rnd (ImageResult c res) s) =
          map (\<lambda>d. if cardId d = cardId c then d\<lparr>imageUrl := Some u\<rparr> else d) (selectedCards s) \<and>
        (\<forall>j < length (selectedCards s).
           imageUrl (selectedCards (step rnd (ImageResult c res) s) ! j) =
             (if cardId (selectedCards s ! j) = cardId c then Some u
              else imageUrl (selectedCards s ! j)))"
    if g: "generateCardImage res = Some u"
  proof -
    from g have "u \<noteq> []" by (rule generateCardImage_nonempty)
    with g have m: "selectedCards (step rnd (ImageResult c res) s) =
          map (\<lambda>d. if cardId d = cardId c then d\<lparr>imageUrl := Some u\<rparr> else d) (selectedCards s)"
      unfolding st by (simp add: mergeImage_def)
    show ?thesis unfolding m by simp
  qed
  have failed: "selectedCards (step rnd (ImageResult c res) s) = selectedCards s"
    if "generateCardImage res = None"
    unfolding st using that by (simp add: mergeImage_def)
  have reset: "timers s = [] \<and> filter isNarrative (requests s) = [] \<and>
        timers (step rnd Reset s) = [] \<and> requests (step rnd Reset s) = requests s \<and>
        step rnd (ImageResult c res) (step rnd Reset s) =
          (step rnd Reset s)\<lparr>requests := remove1 (ImageRequest c) (requests s)\<rparr>"
    if en: "enabled s Reset"
  proof -
    from en c have t: "timers s = []" and n: "filter isNarrative (requests s) = []"
      by (auto simp: consistent_def)
    have rs: "step rnd Reset s = handler rnd Reset s"
      using r by (intro step_rendered handler_deps) auto
    have r': "rendered (step rnd Reset s)" by (simp add: step_def)
    have "step rnd (ImageResult c res) (step rnd Reset s) = handler rnd (ImageResult c res) (step rnd Reset s)"
      using r' by (intro step_rendered handler_deps) auto
    also have "\<dots> = (step rnd Reset s)\<lparr>requests := remove1 (ImageRequest c) (requests s)\<rparr>"
      unfolding rs by (simp add: resetGame_def mergeImage_def split: option.splits)
    finally show ?thesis using t n by (simp add: rs resetGame_def)
  qed
  show ?thesis using frame cards nomatch merged failed reset by blast
qed

section \<open>The concrete sessions, evaluated\<close>

lemma random_source_cycle7: "random_source cycle7"
  by (simp add: random_source_def cycle7_def)

lemma random_source_quarter: "random_source quarter"
  by (simp add: random_source_def quarter_def)

lemma q1_trim [simp]: "trim q1 \<noteq> []" "trim q2 \<noteq> []"
  by (simp_all add: trim_def q1_def q2_def ascii_def js_whitespace_def)

lemma cycle7_draws [simp]:
  "\<lfloor>to_double (cycle7 88 * 78)\<rfloor> = 44"
  "\<lfloor>to_double (cycle7 90 * 78)\<rfloor> = 66"
  "\<lfloor>to_double (cycle7 92 * 78)\<rfloor> = 11"
  "\<lfloor>to_double (cycle7 138 * 78)\<rfloor> = 55"
proof -
  have "\<lfloor>to_double (cycle7 88 * 78)\<rfloor> = int 44"
    by (rule floor_to_double) (simp_all add: cycle7_def)
  then show "\<lfloor>to_double (cycle7 88 * 78)\<rfloor> = 44" by simp
  have "\<lfloor>to_double (cycle7 90 * 78)\<rfloor> = int 66"
    by (rule floor_to_double) (simp_all add: cycle7_def)
  then show "\<lfloor>to_double (cycle7 90 * 78)\<rfloor> = 66" by simp
  have "\<lfloor>to_double (cycle7 92 * 78)\<rfloor> = int 11"
    by (rule floor_to_double) (simp_all add: cycle7_def)
  then show "\<lfloor>to_double (cycle7 92 * 78)\<rfloor> = 11" by simp
  have "\<lfloor>to_double (cycle7 138 * 78)\<rfloor> = int 55"
    by (rule floor_to_double) (simp_all add: cycle7_def)
  then show "\<lfloor>to_double (cycle7 138 * 78)\<rfloor> = 55" by simp
qed

lemma cycle7_orientations [simp]:
  "\<not> to_double (4 / 5) < cycle7 89" "\<not> to_double (4 / 5) < cycle7 91"
  "\<not> to_double (4 / 5) < cycle7 93" "to_double (4 / 5) < cycle7 139"
  unfolding to_double_4_5 by (simp_all add: cycle7_def)

text \<open>
  The numbers of \<open>cycle7\<close> are sevenths, which are not doubles. The sessions played on
  it draw the same cards and orientations on every source whose numbers are within 2 to
  the -40 of them, the nearest doubles among them.
\<close>

lemma cycle7_draws_stable:
  assumes "\<bar>r - cycle7 n\<bar> \<le> 1 / 2 ^ 40"
  shows "n = 88 \<Longrightarrow> \<lfloor>to_double (r * 78)\<rfloor> = 44"
    and "n = 90 \<Longrightarrow> \<lfloor>to_double (r * 78)\<rfloor> = 66"
    and "n = 92 \<Longrightarrow> \<lfloor>to_double (r * 78)\<rfloor> = 11"
    and "n = 138 \<Longrightarrow> \<lfloor>to_double (r * 78)\<rfloor> = 55"
    and "n = 89 \<or> n = 91 \<or> n = 93 \<Longrightarrow> \<not> to_double (4 / 5) < r"
    and "n = 139 \<Longrightarrow> to_double (4 / 5) < r"
proof -
  from assms have b: "cycle7 n - 1 / 2 ^ 40 \<le> r" "r \<le> cycle7 n + 1 / 2 ^ 40"
    by linarith+
  {
    assume "n = 88"
    with b have "real 44 \<le> r * 78" "r * 78 < real 44 + 1 - 1 / 2 ^ 47" "r * 78 < 128"
      by (simp_all add: cycle7_def)
    then have "\<lfloor>to_double (r * 78)\<rfloor> = int 44" by (rule floor_to_double)
    then show "\<lfloor>to_double (r * 78)\<rfloor> = 44" by simp
  }
  {
    assume "n = 90"
    with b have "real 66 \<le> r * 78" "r * 78 < real 66 + 1 - 1 / 2 ^ 47" "r * 78 < 128"
      by (simp_all add: cycle7_def)
    then have "\<lfloor>to_double (r * 78)\<rfloor> = int 66" by (rule floor_to_double)
    then show "\<lfloor>to_double (r * 78)\<rfloor> = 66" by simp
  }
  {
    assume "n = 92"
    with b have "real 11 \<le> r * 78" "r * 78 < real 11 + 1 - 1 / 2 ^ 47" "r * 78 < 128"
      by (simp_all add: cycle7_def)
    then have "\<lfloor>to_double (r * 78)\<rfloor> = int 11" by (rule floor_to_double)
    then show "\<lfloor>to_double (r * 78)\<rfloor> = 11" by simp
  }
  {
    assume "n = 138"
    with b have "real 55 \<le> r * 78" "r * 78 < real 55 + 1 - 1 / 2 ^ 47" "r * 78 < 128"
      by (simp_all add: cycle7_def)
    then have "\<lfloor>to_double (r * 78)\<rfloor> = int 55" by (rule floor_to_double)
    then show "\<lfloor>to_double (r * 78)\<rfloor> = 55" by simp
  }
  {
    assume "n = 89 \<or> n = 91 \<or> n = 93"
    with b show "\<not> to_double (4 / 5) < r"
      unfolding to_double_4_5 by (auto simp: cycle7_def)
  }
  {
    assume "n = 139"
    with b show "to_double (4 / 5) < r"
      unfolding to_double_4_5 by (simp add: cycle7_def)
  }
qed

lemmas run_simps = step_def render_def layoutDeps_def isMobile_def handleStart_def
  handleCardSelect_def Let_def resetGame_def generateReading_def narrativeSettled_def
  mergeImage_def generateCardImage_def js_index_def mount_def firstRender_def

lemma run_toSelecting:
  "run cycle7 toSelecting (mount cycle7 1000) =
    Some \<lparr>gameState = Selecting, question = q1, deck = FULL_DECK, selectedCards = [], reading = [],
      loadingReading = False, layoutSeed = 1, screenWidth = 1000,
      cardLayout = generateLayout cycle7 44 False, memoDeps = (1, 1000, False),
      randomCalls = 88, timers = [], requests = []\<rparr>"
  by (simp add: toSelecting_def run_simps)

lemma double_source_edge: "double_source edge"
proof -
  have a: "is_double (288692283805801 / 2 ^ 49)"
    by (rule is_double_eval [where e = "- 1" and N = 4619076540892816])
      (simp_all add: power_int_minus)
  have b: "is_double (3602879701896397 / 2 ^ 52)"
    by (rule is_double_eval [where e = "- 1" and N = 7205759403792794])
      (simp_all add: power_int_minus)
  show ?thesis
    unfolding double_source_def edge_def using a b by simp
qed

lemma run_edge_toSelecting:
  "run edge toSelecting (mount edge 1000) =
    Some \<lparr>gameState = Selecting, question = q1, deck = FULL_DECK, selectedCards = [], reading = [],
      loadingReading = False, layoutSeed = 1, screenWidth = 1000,
      cardLayout = generateLayout edge 44 False, memoDeps = (1, 1000, False),
      randomCalls = 88, timers = [], requests = []\<rparr>"
  by (simp add: toSelecting_def run_simps)

lemma run_append: "run rnd (es @ fs) s = (case run rnd es s of None \<Rightarrow> None | Some s' \<Rightarrow> run rnd fs s')"
  by (induction es arbitrary: s) auto

lemma run_threeSelected:
  "run cycle7 threeSelected (mount cycle7 1000) =
    Some \<lparr>gameState = Selecting, question = q1, deck = FULL_DECK, selectedCards = cardsA, reading = [],
      loadingReading = False, layoutSeed = 1, screenWidth = 1000,
      cardLayout = generateLayout cycle7 44 False, memoDeps = (1, 1000, False),
      randomCalls = 94, timers = [Timer1000 cardsA q1], requests = []\<rparr>"
  unfolding threeSelected_def run_append run_toSelecting
  by (simp add: run_simps cardsA_def drawn_def)

lemma run_toReading:
  "run cycle7 toReading (mount cycle7 1000) =
    Some \<lparr>gameState = Reading, question = q1, deck = FULL_DECK, selectedCards = cardsA, reading = [],
      loadingReading = True, layoutSeed = 1, screenWidth = 1000,
      cardLayout = generateLayout cycle7 44 False, memoDeps = (1, 1000, False),
      randomCalls = 94, timers = [],
      requests = [ImageRequest (drawn 44 0), ImageRequest (drawn 66 1), ImageRequest (drawn 11 2),
                  NarrativeRequest cardsA q1]\<rparr>"
  unfolding toReading_def run_append run_threeSelected
  by (simp add: run_simps cardsA_def)

lemma run_answered:
  "run cycle7 answered (mount cycle7 1000) =
    Some \<lparr>gameState = Reading, question = q1, deck = FULL_DECK, selectedCards = cardsA,
      reading = ascii ''The cards speak.'',
      loadingReading = False, layoutSeed = 1, screenWidth = 1000,
      cardLayout = generateLayout cycle7 44 False, memoDeps = (1, 1000, False),
      randomCalls = 94, timers = [],
      requests = [ImageRequest (drawn 44 0), ImageRequest (drawn 66 1), ImageRequest (drawn 11 2)]\<rparr>"
  unfolding answered_def run_append run_toReading
  by (simp add: run_simps told_def ascii_def)

lemma run_secondSession:
  "run cycle7 secondSession (mount cycle7 1000) =
    Some \<lparr>gameState = Selecting, question = q2, deck = FULL_DECK,
      selectedCards = [(drawn 55 0)\<lparr>isReversed := True\<rparr>], reading = [],
      loadingReading = False, layoutSeed = 2, screenWidth = 1000,
      cardLayout = generateLayout cycle7 94 False, memoDeps = (2, 1000, False),
      randomCalls = 140, timers = [],
      requests = [ImageRequest (drawn 44 0), ImageRequest (drawn 66 1), ImageRequest (drawn 11 2)]\<rparr>"
  unfolding secondSession_def run_append run_answered
  by (simp add: run_simps drawn_def)

lemma reachable_run: "run rnd es (mount rnd w) = Some s \<Longrightarrow> reachable rnd s"
  using run_reachable [OF reachable.mounted] by blast

lemma deck_names:
  "FULL_DECK ! 44 = ascii ''Nine of Cups ('' @ [0x5723, 0x676F] @ ascii '')''"
  "FULL_DECK ! 55 = ascii ''Six of Swords ('' @ [0x5B9D, 0x5251] @ ascii '')''"
  by (simp_all add: FULL_DECK_def MAJOR_ARCANA_def SUITS_def RANKS_def ascii_def)

lemma slot0_angle: "slot_angle (generateLayout rnd k m ! 0) = (rnd (k + 1) - 1 / 2) * 2"
  by (simp add: generateLayout_nth layoutSlot_sel)

text \<open>
  Counterexample to claim C1: in the second session, with the Six of Swords drawn for
  slot 0, the artwork of the first session's card of slot 0 (the Nine of Cups) is still
  in flight; when it resolves it is written into the new session's card.
\<close>

theorem stale_artwork_is_merged:
  "case run cycle7 secondSession (mount cycle7 1000) of
     None \<Rightarrow> False
   | Some s \<Rightarrow>
       gameState s = Selecting \<and> question s = q2 \<and>
       selectedCards s = [(drawn 55 0)\<lparr>isReversed := True\<rparr>] \<and>
       name (drawn 55 0) = Some (ascii ''Six of Swords ('' @ [0x5B9D, 0x5251] @ ascii '')'') \<and>
       name (drawn 44 0) = Some (ascii ''Nine of Cups ('' @ [0x5723, 0x676F] @ ascii '')'') \<and>
       drawn 44 0 \<in> set cardsA \<and>
       enabled s (ImageResult (drawn 44 0) png) \<and>
       selectedCards (step cycle7 (ImageResult (drawn 44 0) png) s) =
         [(drawn 55 0)\<lparr>isReversed := True,
                       imageUrl := Some (ascii ''data:image/png;base64,AAAA'')\<rparr>] \<and>
       selectedCards (step cycle7 (ImageResult (drawn 44 0) png) s) \<noteq> selectedCards s"
  unfolding run_secondSession
  by (simp add: run_simps drawn_def png_def cardsA_def deck_names ascii_def)

section \<open>Instances\<close>

theorem stale_results_after_reset_witness:
  "(case run cycle7 answered (mount cycle7 1000) of
      None \<Rightarrow> False
    | Some s \<Rightarrow>
        reachable cycle7 s \<and> enabled s Reset \<and>
        timers (step cycle7 Reset s) = [] \<and>
        filter isNarrative (requests s) = [] \<and>
        reachable cycle7 (step cycle7 Reset s) \<and>
        \<not> list_ex (\<lambda>d. cardId d = cardId (drawn 44 0)) (selectedCards (step cycle7 Reset s)) \<and>
        step cycle7 (ImageResult (drawn 44 0) png) (step cycle7 Reset s) =
          (step cycle7 Reset s)\<lparr>requests := [ImageRequest (drawn 66 1), ImageRequest (drawn 11 2)]\<rparr>) \<and>
   (case run cycle7 secondSession (mount cycle7 1000) of
      None \<Rightarrow> False
    | Some s \<Rightarrow>
        reachable cycle7 s \<and> enabled s (ImageResult (drawn 44 0) png) \<and>
        generateCardImage png = Some (ascii ''data:image/png;base64,AAAA'') \<and>
        map imageUrl (selectedCards s) = [None] \<and>
        map cardId (selectedCards s) = [cardId (drawn 44 0)] \<and>
        map imageUrl (selectedCards (step cycle7 (ImageResult (drawn 44 0) png) s)) =
          [Some (ascii ''data:image/png;base64,AAAA'')] \<and>
        gameState (step cycle7 (ImageResult (drawn 44 0) png) s) = Selecting \<and>
        question (step cycle7 (ImageResult (drawn 44 0) png) s) = q2)"
proof -
  obtain s where s: "run cycle7 answered (mount cycle7 1000) = Some s"
    using run_answered by blast
  then have r: "reachable cycle7 s" by (rule reachable_run)
  from s have e: "enabled s Reset"
    "requests s = [ImageRequest (drawn 44 0), ImageRequest (drawn 66 1), ImageRequest (drawn 11 2)]"
    unfolding run_answered by auto
  from r e(1) have r': "reachable cycle7 (step cycle7 Reset s)" by (rule reachable.stepped)
  have n: "\<not> list_ex (\<lambda>d. cardId d = cardId (drawn 44 0)) (selectedCards (step cycle7 Reset s))"
    by (simp add: step_def resetGame_def)
  from stale_results_after_reset [OF r, of "drawn 44 0" png] e
  have a: "timers (step cycle7 Reset s) = []" "filter isNarrative (requests s) = []"
    "requests (step cycle7 Reset s) = requests s"
    by blast+
  from stale_results_after_reset [OF r', of "drawn 44 0" png] n
  have "step cycle7 (ImageResult (drawn 44 0) png) (step cycle7 Reset s) =
         (step cycle7 Reset s)\<lparr>requests := remove1 (ImageRequest (drawn 44 0))
                                              (requests (step cycle7 Reset s))\<rparr>"
    by blast
  then have b: "step cycle7 (ImageResult (drawn 44 0) png) (step cycle7 Reset s) =
         (step cycle7 Reset s)\<lparr>requests := [ImageRequest (drawn 66 1), ImageRequest (drawn 11 2)]\<rparr>"
    unfolding a(3) e(2) by simp
  have first: "case run cycle7 answered (mount cycle7 1000) of
      None \<Rightarrow> False
    | Some s \<Rightarrow>
        reachable cycle7 s \<and> enabled s Reset \<and>
        timers (step cycle7 Reset s) = [] \<and>
        filter isNarrative (requests s) = [] \<and>
        reachable cycle7 (step cycle7 Reset s) \<and>
        \<not> list_ex (\<lambda>d. cardId d = cardId (drawn 44 0)) (selectedCards (step cycle7 Reset s)) \<and>
        step cycle7 (ImageResult (drawn 44 0) png) (step cycle7 Reset s) =
          (step cycle7 Reset s)\<lparr>requests := [ImageRequest (drawn 66 1), ImageRequest (drawn 11 2)]\<rparr>"
    unfolding s option.case by (intro conjI r e(1) a(1) a(2) r' n b)
  obtain t where t: "run cycle7 secondSession (mount cycle7 1000) = Some t"
    using run_secondSession by blast
  then have rt: "reachable cycle7 t" by (rule reachable_run)
  from t have et: "selectedCards t = [(drawn 55 0)\<lparr>isReversed := True\<rparr>]"
    "gameState t = Selecting" "question t = q2"
    "enabled t (ImageResult (drawn 44 0) png)"
    unfolding run_secondSession by auto
  have g: "generateCardImage png = Some (ascii ''data:image/png;base64,AAAA'')"
    by (simp add: generateCardImage_def png_def ascii_def)
  note T = stale_results_after_reset [OF rt, of "drawn 44 0" png "ascii ''data:image/png;base64,AAAA''"]
  from T g have m: "selectedCards (step cycle7 (ImageResult (drawn 44 0) png) t) =
      map (\<lambda>d. if cardId d = cardId (drawn 44 0)
                then d\<lparr>imageUrl := Some (ascii ''data:image/png;base64,AAAA'')\<rparr> else d)
        (selectedCards t)"
    by blast
  from T have fr: "gameState (step cycle7 (ImageResult (drawn 44 0) png) t) = gameState t"
    "question (step cycle7 (ImageResult (drawn 44 0) png) t) = question t"
    by blast+
  have second: "case run cycle7 secondSession (mount cycle7 1000) of
      None \<Rightarrow> False
    | Some s \<Rightarrow>
        reachable cycle7 s \<and> enabled s (ImageResult (drawn 44 0) png) \<and>
        generateCardImage png = Some (ascii ''data:image/png;base64,AAAA'') \<and>
        map imageUrl (selectedCards s) = [None] \<and>
        map cardId (selectedCards s) = [cardId (drawn 44 0)] \<and>
        map imageUrl (selectedCards (step cycle7 (ImageResult (drawn 44 0) png) s)) =
          [Some (ascii ''data:image/png;base64,AAAA'')] \<and>
        gameState (step cycle7 (ImageResult (drawn 44 0) png) s) = Selecting \<and>
        question (step cycle7 (ImageResult (drawn 44 0) png) s) = q2"
    unfolding t option.case m fr using rt et g by (simp add: drawn_def)
  from first second show ?thesis by (rule conjI)
qed

text \<open>
  Counterexample to claim C2: in the \<open>Selecting\<close> state, with the seed and the
  compactness unchanged, a resize by one pixel gives a layout with other jitter.
\<close>

theorem resize_redraws_layout:
  "case run cycle7 toSelecting (mount cycle7 1000) of
     None \<Rightarrow> False
   | Some s \<Rightarrow>
       gameState s = Selecting \<and> enabled s (Resize 1001) \<and>
       gameState (step cycle7 (Resize 1001) s) = Selecting \<and>
       layoutSeed (step cycle7 (Resize 1001) s) = layoutSeed s \<and>
       isMobile (step cycle7 (Resize 1001) s) = isMobile s \<and>
       slot_angle (cardLayout s ! 0) = - 1 / 7 \<and>
       slot_angle (cardLayout (step cycle7 (Resize 1001) s) ! 0) = 3 / 7 \<and>
       cardLayout (step cycle7 (Resize 1001) s) \<noteq> cardLayout s"
proof -
  have a: "slot_angle (generateLayout cycle7 44 False ! 0) = - 1 / 7"
    and b: "slot_angle (generateLayout cycle7 88 False ! 0) = 3 / 7"
    by (simp_all add: slot0_angle cycle7_def)
  then have "generateLayout cycle7 88 False \<noteq> generateLayout cycle7 44 False"
    by auto
  with a b show ?thesis
    unfolding run_toSelecting by (simp add: run_simps)
qed

theorem layout_regenerated_on_start_and_width_change_witness:
  "rendered (mount quarter 1000) \<and>
   cardLayout (step quarter (Resize 500) (mount quarter 1000)) = generateLayout quarter 44 True \<and>
   cardLayout (step quarter (Resize 1000) (mount quarter 1000)) = cardLayout (mount quarter 1000) \<and>
   cardLayout (step quarter Start (mount quarter 1000)) = cardLayout (mount quarter 1000) \<and>
   cardLayout (step quarter Start (step quarter (ChangeQuestion q1) (mount quarter 1000))) =
     generateLayout quarter 44 False \<and>
   cardLayout (step quarter (SelectCard 0) (mount quarter 1000)) = cardLayout (mount quarter 1000)"
proof -
  have r: "rendered (mount quarter 1000)" by (simp add: mount_def)
  have r': "rendered (step quarter (ChangeQuestion q1) (mount quarter 1000))" by (simp add: step_def)
  have m: "screenWidth (mount quarter 1000) = 1000" "randomCalls (mount quarter 1000) = 44"
    "question (mount quarter 1000) = []"
    by (simp_all add: run_simps)
  have m': "randomCalls (step quarter (ChangeQuestion q1) (mount quarter 1000)) = 44"
    "question (step quarter (ChangeQuestion q1) (mount quarter 1000)) = q1"
    "isMobile (step quarter (ChangeQuestion q1) (mount quarter 1000)) = False"
    by (simp_all add: run_simps)
  have t: "trim [] = []" by (simp add: trim_def)
  from layout_regenerated_on_start_and_width_change [OF r, of quarter 500 "SelectCard 0"]
    layout_regenerated_on_start_and_width_change [OF r, of quarter 1000 "SelectCard 0"]
    layout_regenerated_on_start_and_width_change [OF r', of quarter 1000 "SelectCard 0"]
  show ?thesis using r m m' t by simp
qed

text \<open>
  Counterexample to claim C4: after a reset the layout is the one of the session just
  ended: it is not empty, and it is not the layout of the initial state.
\<close>

theorem reset_keeps_layout:
  "case run cycle7 answered (mount cycle7 1000) of
     None \<Rightarrow> False
   | Some s \<Rightarrow>
       enabled s Reset \<and>
       cardLayout (step cycle7 Reset s) = cardLayout s \<and>
       length (cardLayout (step cycle7 Reset s)) = 22 \<and>
       cardLayout (step cycle7 Reset s) \<noteq> [] \<and>
       slot_angle (cardLayout (step cycle7 Reset s) ! 0) = - 1 / 7 \<and>
       slot_angle (cardLayout (mount cycle7 1000) ! 0) = - 5 / 7 \<and>
       cardLayout (step cycle7 Reset s) \<noteq> cardLayout (mount cycle7 1000)"
proof -
  have a: "slot_angle (generateLayout cycle7 44 False ! 0) = - 1 / 7"
    and b: "slot_angle (generateLayout cycle7 0 False ! 0) = - 5 / 7"
    by (simp_all add: slot0_angle cycle7_def)
  then have c: "generateLayout cycle7 44 False \<noteq> generateLayout cycle7 0 False"
    by auto
  have d: "generateLayout cycle7 44 False \<noteq> []"
  proof
    assume "generateLayout cycle7 44 False = []"
    then have "length (generateLayout cycle7 44 False) = 0" by (simp only: list.size)
    then show False by simp
  qed
  from a b c d show ?thesis
    unfolding run_answered by (simp add: run_simps)
qed

theorem reset_clears_session_keeps_layout_witness:
  "case run cycle7 answered (mount cycle7 1000) of
     None \<Rightarrow> False
   | Some s \<Rightarrow>
       rendered s \<and> gameState s = Reading \<and> question s = q1 \<and> selectedCards s = cardsA \<and>
       reading s = ascii ''The cards speak.'' \<and>
       gameState (step cycle7 Reset s) = Input \<and> question (step cycle7 Reset s) = [] \<and>
       selectedCards (step cycle7 Reset s) = [] \<and> reading (step cycle7 Reset s) = [] \<and>
       cardLayout (step cycle7 Reset s) = cardLayout s"
proof -
  obtain s where s: "run cycle7 answered (mount cycle7 1000) = Some s"
    using run_answered by blast
  then have r: "rendered s" by (intro reachable_rendered reachable_run)
  from s have e: "gameState s = Reading \<and> question s = q1 \<and> selectedCards s = cardsA \<and>
       reading s = ascii ''The cards speak.''"
    unfolding run_answered by auto
  from reset_clears_session_keeps_layout [OF r, of cycle7] have
    "step cycle7 Reset s = s\<lparr>gameState := Input, question := [], selectedCards := [], reading := []\<rparr>"
    "cardLayout (step cycle7 Reset s) = cardLayout s"
    by blast+
  then show ?thesis unfolding s using r e by simp
qed

theorem draw_is_uniform_with_replacement_witness:
  "case run edge toSelecting (mount edge 1000) of
     None \<Rightarrow> False
   | Some s \<Rightarrow>
       double_source edge \<and> reachable edge s \<and> length (selectedCards s) < 3 \<and>
       edge (randomCalls s) = 288692283805801 / 2 ^ 49 \<and>
       edge (randomCalls s + 1) = to_double 0.8 \<and>
       \<lfloor>edge (randomCalls s) * 78\<rfloor> = 39 \<and>
       \<lfloor>to_double (edge (randomCalls s) * 78)\<rfloor> = 40 \<and>
       selectedCards (step edge (SelectCard 0) s) = [drawn 40 0] \<and>
       name (drawn 40 0) = Some (ascii ''Five of Cups ('' @ [0x5723, 0x676F] @ ascii '')'') \<and>
       \<not> isReversed (drawn 40 0)"
proof -
  obtain s where s: "run edge toSelecting (mount edge 1000) = Some s"
    using run_edge_toSelecting by blast
  then have r: "reachable edge s" by (rule reachable_run)
  from s have e: "selectedCards s = []" "randomCalls s = 88"
    unfolding run_edge_toSelecting by auto
  then have l: "length (selectedCards s) < 3" by simp
  have v: "edge 88 = 288692283805801 / 2 ^ 49" "edge 89 = to_double 0.8"
    unfolding to_double_0_8 by (simp_all add: edge_def)
  have p: "\<lfloor>to_double (edge 88 * 78)\<rfloor> = 40" "\<lfloor>edge 88 * 78\<rfloor> = 39"
    unfolding v(1) by (rule product_rounds_up)+
  from draw_is_uniform_with_replacement [OF double_source_edge r l, of 0]
  have "selectedCards (step edge (SelectCard 0) s) =
      [\<lparr>name = Some (FULL_DECK ! nat \<lfloor>to_double (edge 88 * 78)\<rfloor>),
        isReversed = (edge 89 > to_double 0.8), cardId = 0,
        originalIndex = None, imageUrl = None\<rparr>]"
    unfolding Let_def e by simp
  then have d: "selectedCards (step edge (SelectCard 0) s) = [drawn 40 0]"
    unfolding p v(2) by (simp add: drawn_def)
  have n: "name (drawn 40 0) = Some (ascii ''Five of Cups ('' @ [0x5723, 0x676F] @ ascii '')'')"
    by (simp add: drawn_def FULL_DECK_def MAJOR_ARCANA_def SUITS_def RANKS_def ascii_def)
  show ?thesis
    unfolding s using double_source_edge r l e v p d n by (simp add: drawn_def)
qed

theorem select_at_three_is_noop_witness:
  "case run cycle7 threeSelected (mount cycle7 1000) of
     None \<Rightarrow> False
   | Some s \<Rightarrow>
       reachable cycle7 s \<and> gameState s = Selecting \<and> length (selectedCards s) = 3 \<and>
       enabled s (SelectCard 5) \<and> step cycle7 (SelectCard 5) s = s \<and>
       gameState (step cycle7 (Resize 500) s) = Selecting \<and>
       length (selectedCards s) \<le> length (selectedCards (step cycle7 (Resize 500) s))"
proof -
  obtain s where s: "run cycle7 threeSelected (mount cycle7 1000) = Some s"
    using run_threeSelected by blast
  then have r: "reachable cycle7 s" by (rule reachable_run)
  from s have e: "gameState s = Selecting" "length (selectedCards s) = 3" "enabled s (SelectCard 5)"
    unfolding run_threeSelected by (auto simp: cardsA_def drawn_def)
  have g: "gameState (step cycle7 (Resize 500) s) = Selecting"
    using e by (simp add: step_def)
  from select_at_three_is_noop [OF r, of 5 "Resize 500"] e g r
  show ?thesis unfolding s by simp
qed

theorem start_needs_question_witness:
  "reachable quarter (mount quarter 1000) \<and> gameState (mount quarter 1000) = Input \<and>
   trim (question (mount quarter 1000)) = [] \<and>
   step quarter Start (mount quarter 1000) = mount quarter 1000 \<and>
   reachable quarter (step quarter (ChangeQuestion q1) (mount quarter 1000)) \<and>
   gameState (step quarter (ChangeQuestion q1) (mount quarter 1000)) = Input \<and>
   trim (question (step quarter (ChangeQuestion q1) (mount quarter 1000))) \<noteq> [] \<and>
   gameState (step quarter Start (step quarter (ChangeQuestion q1) (mount quarter 1000))) = Shuffling \<and>
   selectedCards (step quarter Start (step quarter (ChangeQuestion q1) (mount quarter 1000))) = [] \<and>
   cardLayout (step quarter Start (step quarter (ChangeQuestion q1) (mount quarter 1000))) =
     generateLayout quarter 44 False"
proof -
  let ?m = "mount quarter 1000"
  let ?s = "step quarter (ChangeQuestion q1) ?m"
  have r: "reachable quarter ?m" by (rule reachable.mounted)
  have g: "gameState ?m = Input" "question ?m = []" by (simp_all add: run_simps)
  have r': "reachable quarter ?s" using r by (rule reachable.stepped) (simp add: g)
  have g': "gameState ?s = Input" "question ?s = q1" "randomCalls ?s = 44" "isMobile ?s = False"
    by (simp_all add: run_simps)
  have t: "trim [] = []" by (simp add: trim_def)
  from start_needs_question [OF r g(1)] g t
  have a: "step quarter Start ?m = ?m" by simp
  have nz: "trim (question ?s) \<noteq> []" using g' by simp
  from start_needs_question [OF r' g'(1)] nz
  have b: "gameState (step quarter Start ?s) = Shuffling"
    and c: "selectedCards (step quarter Start ?s) = []"
    and d: "step quarter Start ?s =
         ?s\<lparr>gameState := Shuffling, layoutSeed := layoutSeed ?s + 1, timers := [Timer2500],
           cardLayout := generateLayout quarter (randomCalls ?s) (isMobile ?s),
           memoDeps := (layoutSeed ?s + 1, screenWidth ?s, isMobile ?s),
           randomCalls := randomCalls ?s + 44\<rparr>"
    by blast+
  have e: "cardLayout (step quarter Start ?s) = generateLayout quarter 44 False"
    unfolding d using g' by simp
  show ?thesis using r r' g g' t a b c e by simp
qed

theorem service_failures_stay_in_band_witness:
  "case run cycle7 toReading (mount cycle7 1000) of
     None \<Rightarrow> False
   | Some s \<Rightarrow>
       reachable cycle7 s \<and> loadingReading s \<and> reading s = [] \<and>
       enabled s (NarrativeResult cardsA q1 Rejected) \<and>
       reading (step cycle7 (NarrativeResult cardsA q1 Rejected) s) = ascii
         ''An error occurred while communing with the spirits. Please check your connection and try again.'' \<and>
       reading (step cycle7 (NarrativeResult cardsA q1 Rejected) s) \<noteq> [] \<and>
       \<not> loadingReading (step cycle7 (NarrativeResult cardsA q1 Rejected) s) \<and>
       selectedCards (step cycle7 (NarrativeResult cardsA q1 Rejected) s) = cardsA \<and>
       enabled (step cycle7 (NarrativeResult cardsA q1 Rejected) s) Reset \<and>
       reading (step cycle7 (NarrativeResult cardsA q1 (Fulfilled None)) s) =
         ascii ''The spirits are silent. Please try again.'' \<and>
       enabled s (ImageResult (drawn 66 1) Rejected) \<and>
       generateCardImage Rejected = None \<and>
       step cycle7 (ImageResult (drawn 66 1) Rejected) s =
         s\<lparr>requests := [ImageRequest (drawn 44 0), ImageRequest (drawn 11 2),
                         NarrativeRequest cardsA q1]\<rparr> \<and>
       enabled (step cycle7 (NarrativeResult cardsA q1 Rejected) s)
         (ImageResult (drawn 66 1) Rejected) \<and>
       reading (step cycle7 (ImageResult (drawn 66 1) Rejected)
                 (step cycle7 (NarrativeResult cardsA q1 Rejected) s)) =
         reading (step cycle7 (NarrativeResult cardsA q1 Rejected) s)"
proof -
  obtain s where s: "run cycle7 toReading (mount cycle7 1000) = Some s"
    using run_toReading by blast
  then have r: "reachable cycle7 s" by (rule reachable_run)
  from s have e: "loadingReading s" "selectedCards s = cardsA" "reading s = []"
    "requests s = [ImageRequest (drawn 44 0), ImageRequest (drawn 66 1), ImageRequest (drawn 11 2),
                  NarrativeRequest cardsA q1]"
    unfolding run_toReading by auto
  let ?f = "step cycle7 (NarrativeResult cardsA q1 Rejected) s"
  have en: "enabled s (NarrativeResult cardsA q1 Rejected)" "enabled s (ImageResult (drawn 66 1) Rejected)"
    using e(4) by simp_all
  have d: "drawn 66 1 \<noteq> drawn 44 0" by (simp add: drawn_def)
  note T = service_failures_stay_in_band [OF r, of Rejected "drawn 66 1" Rejected cardsA q1
      "ImageResult (drawn 66 1) Rejected"]
  from T have n: "generateCardImage Rejected = None" by blast
  from T n have i: "step cycle7 (ImageResult (drawn 66 1) Rejected) s =
          s\<lparr>requests := remove1 (ImageRequest (drawn 66 1)) (requests s)\<rparr>"
    by blast
  from T have f: "?f =
      s\<lparr>reading := ascii
            ''An error occurred while communing with the spirits. Please check your connection and try again.'',
        loadingReading := False,
        requests := remove1 (NarrativeRequest cardsA q1) (requests s)\<rparr>"
    by blast
  from T have g: "step cycle7 (NarrativeResult cardsA q1 (Fulfilled None)) s =
      s\<lparr>reading := ascii ''The spirits are silent. Please try again.'',
        loadingReading := False,
        requests := remove1 (NarrativeRequest cardsA q1) (requests s)\<rparr>"
    by blast
  from T en(1) have a: "gameState ?f = Reading" "\<not> loadingReading ?f" "reading ?f \<noteq> []"
    "enabled ?f Reset"
    by blast+
  from r en(1) have r': "reachable cycle7 ?f" by (rule reachable.stepped)
  have en': "enabled ?f (ImageResult (drawn 66 1) Rejected)"
    unfolding f using e(4) by simp
  from service_failures_stay_in_band [OF r', of Rejected "drawn 66 1" Rejected cardsA q1
      "ImageResult (drawn 66 1) Rejected"] a en'
  have t: "reading (step cycle7 (ImageResult (drawn 66 1) Rejected) ?f) = reading ?f"
    by blast
  have f1: "reading ?f = ascii
         ''An error occurred while communing with the spirits. Please check your connection and try again.''"
    "selectedCards ?f = cardsA"
    unfolding f using e by simp_all
  have g1: "reading (step cycle7 (NarrativeResult cardsA q1 (Fulfilled None)) s) =
         ascii ''The spirits are silent. Please try again.''"
    unfolding g by simp
  have i1: "step cycle7 (ImageResult (drawn 66 1) Rejected) s =
         s\<lparr>requests := [ImageRequest (drawn 44 0), ImageRequest (drawn 11 2),
                         NarrativeRequest cardsA q1]\<rparr>"
    unfolding i e(4) using d by simp
  show ?thesis
    unfolding s option.case
    by (intro conjI r e(1) e(3) en f1 a(2) a(3) a(4) g1 n i1 en' t)
qed

theorem artwork_merge_is_partial_and_commutes_witness:
  "case run cycle7 toReading (mount cycle7 1000) of
     None \<Rightarrow> False
   | Some s \<Rightarrow>
       reachable cycle7 s \<and> NarrativeRequest cardsA q1 \<in> set (requests s) \<and>
       generateCardImage png = Some (ascii ''data:image/png;base64,AAAA'') \<and>
       cardId (selectedCards s ! 1) = cardId (drawn 66 1) \<and>
       mset [ImageResult (drawn 11 2) png, ImageResult (drawn 44 0) Rejected,
             NarrativeResult cardsA q1 told, ImageResult (drawn 66 1) png] =
         mset (completions cardsA q1 [Rejected, png, png] told) \<and>
       selectedCards (step cycle7 (ImageResult (drawn 66 1) png) s) =
         cardsA[1 := (drawn 66 1)\<lparr>imageUrl := Some (ascii ''data:image/png;base64,AAAA'')\<rparr>] \<and>
       fold (step cycle7)
         [ImageResult (drawn 11 2) png, ImageResult (drawn 44 0) Rejected,
          NarrativeResult cardsA q1 told, ImageResult (drawn 66 1) png] s =
       fold (step cycle7)
         [NarrativeResult cardsA q1 told, ImageResult (drawn 44 0) Rejected,
          ImageResult (drawn 66 1) png, ImageResult (drawn 11 2) png] s"
proof -
  obtain s where s: "run cycle7 toReading (mount cycle7 1000) = Some s"
    using run_toReading by blast
  then have r: "reachable cycle7 s" by (rule reachable_run)
  from s have e: "selectedCards s = cardsA" "NarrativeRequest cardsA q1 \<in> set (requests s)"
    unfolding run_toReading by auto
  have g: "generateCardImage png = Some (ascii ''data:image/png;base64,AAAA'')"
    by (simp add: generateCardImage_def png_def ascii_def)
  have c: "completions cardsA q1 [Rejected, png, png] told =
     [NarrativeResult cardsA q1 told, ImageResult (drawn 44 0) Rejected,
      ImageResult (drawn 66 1) png, ImageResult (drawn 11 2) png]"
    by (simp add: completions_def cardsA_def)
  have m: "mset [ImageResult (drawn 11 2) png, ImageResult (drawn 44 0) Rejected,
          NarrativeResult cardsA q1 told, ImageResult (drawn 66 1) png] =
        mset (completions cardsA q1 [Rejected, png, png] told)"
    unfolding c by (simp add: add.commute add.left_commute)
  have l: "length [Rejected, png, png] = length cardsA" by (simp add: cardsA_def)
  have j: "(1::nat) < length (selectedCards s)" "cardId (selectedCards s ! 1) = cardId (drawn 66 1)"
    "selectedCards s ! 1 = drawn 66 1"
    unfolding e by (simp_all add: cardsA_def)
  note T = artwork_merge_is_partial_and_commutes [OF r,
      of png "ascii ''data:image/png;base64,AAAA''" "drawn 66 1" cardsA q1 "[Rejected, png, png]"
         "[ImageResult (drawn 11 2) png, ImageResult (drawn 44 0) Rejected,
          NarrativeResult cardsA q1 told, ImageResult (drawn 66 1) png]" told]
  from T g j have "selectedCards (step cycle7 (ImageResult (drawn 66 1) png) s) =
         (selectedCards s)[1 := (selectedCards s ! 1)\<lparr>imageUrl := Some (ascii ''data:image/png;base64,AAAA'')\<rparr>]"
    by blast
  moreover from T e l m have "fold (step cycle7)
         [ImageResult (drawn 11 2) png, ImageResult (drawn 44 0) Rejected,
          NarrativeResult cardsA q1 told, ImageResult (drawn 66 1) png] s =
       fold (step cycle7) (completions cardsA q1 [Rejected, png, png] told) s"
    by blast
  ultimately show ?thesis unfolding s using r e g j m c by simp
qed

section \<open>The deck catalog classifies every card\<close>

lemma firstWords: "map firstWord MAJOR_ARCANA = map ascii [''The'', ''The'', ''The'', ''The'', ''The'', ''The'', ''The'', ''The'',
   ''Strength'', ''The'', ''Wheel'', ''Justice'', ''The'', ''Death'', ''Temperance'', ''The'', ''The'', ''The'', ''The'', ''The'', ''Judgement'', ''The'']"
  by (simp add: MAJOR_ARCANA_def firstWord_def ascii_def)

lemma isMajor_eq: "isMajor (getCardMetadata nm) = list_ex (js_includes nm) (map firstWord MAJOR_ARCANA)"
  by (simp add: getCardMetadata_def Let_def list_ex_iff split: prod.splits)

lemma isMajor_words: "isMajor (getCardMetadata nm) = list_ex (js_includes nm) (map ascii [''The'', ''Strength'', ''Wheel'', ''Justice'', ''Death'', ''Temperance'', ''Judgement''])"
  unfolding isMajor_eq firstWords by auto

lemma number_eq: "number (getCardMetadata nm) =
   (if isMajor (getCardMetadata nm) \<and> indexOf MAJOR_ARCANA nm \<noteq> - 1
    then toRoman (nat (indexOf MAJOR_ARCANA nm)) else [])"
  by (simp add: getCardMetadata_def Let_def split: prod.splits)

lemma suit_eq: "suit (getCardMetadata nm) =
   (if isMajor (getCardMetadata nm) then ascii ''Major''
    else if js_includes nm (ascii ''Wands'') then ascii ''Wands''
    else if js_includes nm (ascii ''Cups'') then ascii ''Cups''
    else if js_includes nm (ascii ''Swords'') then ascii ''Swords''
    else if js_includes nm (ascii ''Pentacles'') then ascii ''Pentacles''
    else ascii ''Major'')"
  by (simp add: getCardMetadata_def Let_def split: prod.splits)

lemma minors_isMajor: "\<forall>s\<in>set SUITS. \<forall>r\<in>set RANKS. \<not> isMajor (getCardMetadata (r @ ascii '' of '' @ s))"
  unfolding isMajor_words 
  by (simp add: ascii_def SUITS_def RANKS_def)

lemma majors_isMajor: "\<forall>n\<in>set MAJOR_ARCANA. isMajor (getCardMetadata n)"
  unfolding isMajor_words 
  by (simp add: ascii_def MAJOR_ARCANA_def)

lemma minors_suit: "\<forall>s\<in>set SUITS. \<forall>r\<in>set RANKS. suit (getCardMetadata (r @ ascii '' of '' @ s)) = firstWord s"
  unfolding suit_eq isMajor_words 
  by (simp add: ascii_def SUITS_def RANKS_def firstWord_def)

lemma indexOf_majors: "map (indexOf MAJOR_ARCANA) MAJOR_ARCANA = map int [0..<22]"
  by (simp add: indexOf_def ascii_def MAJOR_ARCANA_def upt_rec)

lemma romans: "map toRoman [0..<22] = map ascii [''0'', ''I'', ''II'', ''III'', ''IV'', ''V'', ''VI'', ''VII'', ''VIII'', ''IX'', ''X'',
    ''XI'', ''XII'', ''XIII'', ''XIV'', ''XV'', ''XVI'', ''XVII'', ''XVIII'', ''XIX'', ''XX'', ''XXI'']"
  by (simp add: toRoman_def lookup_def upt_rec ascii_def)

lemma minors_not_major_names: "\<forall>s\<in>set SUITS. \<forall>r\<in>set RANKS. r @ ascii '' of '' @ s \<notin> set MAJOR_ARCANA"
  by (simp add: ascii_def SUITS_def RANKS_def MAJOR_ARCANA_def)

lemma majors_number: "map (\<lambda>n. number (getCardMetadata n)) MAJOR_ARCANA = map toRoman [0..<22]"
proof -
  have "map (\<lambda>n. number (getCardMetadata n)) MAJOR_ARCANA
        = map (\<lambda>n. if indexOf MAJOR_ARCANA n \<noteq> - 1 then toRoman (nat (indexOf MAJOR_ARCANA n)) else []) MAJOR_ARCANA"
    using majors_isMajor by (simp add: number_eq)
  also have "\<dots> = map ((\<lambda>i. if i \<noteq> - 1 then toRoman (nat i) else []) \<circ> indexOf MAJOR_ARCANA) MAJOR_ARCANA"
    by simp
  also have "\<dots> = map (\<lambda>i. if i \<noteq> - 1 then toRoman (nat i) else []) (map int [0..<22])"
    unfolding map_map [symmetric] indexOf_majors ..
  also have "\<dots> = map toRoman [0..<22]"
    by (simp add: o_def)
  finally show ?thesis .
qed

lemma FULL_DECK_set: "set FULL_DECK = set MAJOR_ARCANA \<union> {r @ ascii '' of '' @ s | r s. s \<in> set SUITS \<and> r \<in> set RANKS}"
  by (auto simp: FULL_DECK_def)

text \<open>
  Claim C10. \<open>getCardMetadata\<close> is a function of the nm alone, and on the 78 entries
  of \<open>FULL_DECK\<close> its substring tests classify correctly: \<open>isMajor\<close> holds exactly
  for the 22 entries of \<open>MAJOR_ARCANA\<close>; \<open>number\<close> is non-empty exactly for them, and
  is the Roman numeral of the entry's position, with \<open>0\<close> for position 0; it is empty for
  the 56 others; \<open>suit\<close> is \<open>Major\<close> for the majors and, for the card of a rank and a
  suit, the English word of that suit (Wands, Cups, Swords, Pentacles).
\<close>

theorem getCardMetadata_classifies:
  "length MAJOR_ARCANA = 22 \<and> length FULL_DECK = 78 \<and> distinct FULL_DECK \<and>
   (\<forall>nm \<in> set FULL_DECK.
      isMajor (getCardMetadata nm) = (nm \<in> set MAJOR_ARCANA) \<and>
      (number (getCardMetadata nm) \<noteq> []) = (nm \<in> set MAJOR_ARCANA)) \<and>
   map (\<lambda>nm. number (getCardMetadata nm)) MAJOR_ARCANA =
     map ascii [''0'', ''I'', ''II'', ''III'', ''IV'', ''V'', ''VI'', ''VII'', ''VIII'', ''IX'',
       ''X'', ''XI'', ''XII'', ''XIII'', ''XIV'', ''XV'', ''XVI'', ''XVII'', ''XVIII'', ''XIX'',
       ''XX'', ''XXI''] \<and>
   (\<forall>nm \<in> set MAJOR_ARCANA. suit (getCardMetadata nm) = ascii ''Major'') \<and>
   (\<forall>s \<in> set SUITS. \<forall>r \<in> set RANKS.
      r @ ascii '' of '' @ s \<in> set FULL_DECK \<and>
      suit (getCardMetadata (r @ ascii '' of '' @ s)) = firstWord s \<and>
      number (getCardMetadata (r @ ascii '' of '' @ s)) = []) \<and>
   map firstWord SUITS = map ascii [''Wands'', ''Cups'', ''Swords'', ''Pentacles'']"
proof (intro conjI)
  show "length MAJOR_ARCANA = 22" by (simp add: MAJOR_ARCANA_def)
  then show "length FULL_DECK = 78" by (simp add: FULL_DECK_def SUITS_def RANKS_def length_concat)
  show "distinct FULL_DECK"
    by (simp add: FULL_DECK_def MAJOR_ARCANA_def SUITS_def RANKS_def ascii_def)
  show "map (\<lambda>nm. number (getCardMetadata nm)) MAJOR_ARCANA =
     map ascii [''0'', ''I'', ''II'', ''III'', ''IV'', ''V'', ''VI'', ''VII'', ''VIII'', ''IX'',
       ''X'', ''XI'', ''XII'', ''XIII'', ''XIV'', ''XV'', ''XVI'', ''XVII'', ''XVIII'', ''XIX'',
       ''XX'', ''XXI'']"
    using majors_number romans by simp
  have nonempty: "\<forall>n \<in> set MAJOR_ARCANA. number (getCardMetadata n) \<noteq> []"
  proof -
    have "\<forall>x \<in> set (map (\<lambda>n. number (getCardMetadata n)) MAJOR_ARCANA). x \<noteq> []"
      unfolding majors_number romans by (simp add: ascii_def)
    then show ?thesis by simp
  qed
  have minor_number: "number (getCardMetadata (r @ ascii '' of '' @ s)) = []"
    if "s \<in> set SUITS" "r \<in> set RANKS" for r s
    using minors_isMajor that by (simp add: number_eq)
  show "\<forall>nm \<in> set FULL_DECK.
      isMajor (getCardMetadata nm) = (nm \<in> set MAJOR_ARCANA) \<and>
      (number (getCardMetadata nm) \<noteq> []) = (nm \<in> set MAJOR_ARCANA)"
    unfolding FULL_DECK_set
    using majors_isMajor minors_isMajor minors_not_major_names nonempty minor_number
    by auto
  show "\<forall>nm \<in> set MAJOR_ARCANA. suit (getCardMetadata nm) = ascii ''Major''"
    using majors_isMajor by (simp add: suit_eq)
  show "\<forall>s \<in> set SUITS. \<forall>r \<in> set RANKS.
      r @ ascii '' of '' @ s \<in> set FULL_DECK \<and>
      suit (getCardMetadata (r @ ascii '' of '' @ s)) = firstWord s \<and>
      number (getCardMetadata (r @ ascii '' of '' @ s)) = []"
    using minors_suit minor_number unfolding FULL_DECK_set by blast
  show "map firstWord SUITS = map ascii [''Wands'', ''Cups'', ''Swords'', ''Pentacles'']"
    by (simp add: SUITS_def firstWord_def ascii_def)
qed

theorem getCardMetadata_classifies_witness:
  "isMajor (getCardMetadata (ascii ''The Fool ('' @ [0x611A, 0x8005] @ ascii '')'')) \<and>
   number (getCardMetadata (ascii ''The Fool ('' @ [0x611A, 0x8005] @ ascii '')'')) = ascii ''0'' \<and>
   suit (getCardMetadata (ascii ''The Fool ('' @ [0x611A, 0x8005] @ ascii '')'')) = ascii ''Major'' \<and>
   \<not> isMajor (getCardMetadata (ascii ''Three of Cups ('' @ [0x5723, 0x676F] @ ascii '')'')) \<and>
   number (getCardMetadata (ascii ''Three of Cups ('' @ [0x5723, 0x676F] @ ascii '')'')) = [] \<and>
   suit (getCardMetadata (ascii ''Three of Cups ('' @ [0x5723, 0x676F] @ ascii '')'')) = ascii ''Cups''"
proof -
  let ?fool = "ascii ''The Fool ('' @ [0x611A, 0x8005] @ ascii '')''"
  let ?cups = "ascii ''Cups ('' @ [0x5723, 0x676F] @ ascii '')''"
  let ?three = "ascii ''Three''"
  have f: "?fool \<in> set MAJOR_ARCANA" "?fool \<in> set FULL_DECK" "MAJOR_ARCANA ! 0 = ?fool"
    by (simp_all add: MAJOR_ARCANA_def FULL_DECK_def)
  have c: "?cups \<in> set SUITS" "?three \<in> set RANKS"
    by (simp_all add: SUITS_def RANKS_def)
  have e: "?three @ ascii '' of '' @ ?cups = ascii ''Three of Cups ('' @ [0x5723, 0x676F] @ ascii '')''"
    by (simp add: ascii_def)
  have n: "?three @ ascii '' of '' @ ?cups \<notin> set MAJOR_ARCANA"
    by (simp add: ascii_def MAJOR_ARCANA_def)
  have w: "firstWord ?cups = ascii ''Cups''"
    by (simp add: firstWord_def ascii_def)
  note T = getCardMetadata_classifies
  have len: "length MAJOR_ARCANA = 22" using T by blast
  have "number (getCardMetadata (MAJOR_ARCANA ! 0)) = ascii ''0''"
    using arg_cong [OF T [THEN conjunct2, THEN conjunct2, THEN conjunct2, THEN conjunct2, THEN conjunct1], of "\<lambda>xs. xs ! 0"] len
    by simp
  moreover have "isMajor (getCardMetadata ?fool)" "suit (getCardMetadata ?fool) = ascii ''Major''"
    using T f by blast+
  moreover have "\<not> isMajor (getCardMetadata (?three @ ascii '' of '' @ ?cups))"
     "number (getCardMetadata (?three @ ascii '' of '' @ ?cups)) = []"
     "suit (getCardMetadata (?three @ ascii '' of '' @ ?cups)) = ascii ''Cups''"
    using T c n w by (blast, blast, metis)
  ultimately show ?thesis unfolding e f(3) by blast
qed

end
